theory Spec2Isabelle
  imports Main "HOL-Library.Word" "HOL-Library.Signed_Division" "HOL-Library.Multiset"
begin

section \<open>The CloudSpanner tree storage (storage/cloudspanner/tree\_storage.go)\<close>

text \<open>
  A shallow embedding of the tree transaction of Trillian's CloudSpanner storage layer:
  the subtree key mapping, the subtree read, the tree head resolution, the node reads
  and writes through the subtree cache, and the Commit / Rollback / Close life cycle.

  Go's \<open>int64\<close> is \<open>64 word\<close>, compared through \<open>sint\<close>; Go's \<open>int\<close> (the prefix length
  of a node id, on which only \<open>% 8\<close> and \<open>/ 8\<close> are computed) is \<open>int\<close>, with Go's
  truncating \<open>smod\<close> and \<open>sdiv\<close>. A function that can panic returns an \<open>outcome\<close>.
\<close>

subsection \<open>Values\<close>

type_synonym byte = "8 word"
type_synonym int64 = "64 word"
type_synonym int32 = "32 word"

text \<open>
  A Go byte slice: the bytes it shows (\<open>len\<close> of them) and the bytes of its backing
  array behind them (\<open>cap - len\<close> of them). The nil slice has neither.
\<close>

record go_bytes =
  elems :: "byte list"
  spare :: "byte list"

definition len :: "go_bytes \<Rightarrow> nat" where
  "len b = length (elems b)"

definition cap :: "go_bytes \<Rightarrow> nat" where
  "cap b = length (elems b) + length (spare b)"

text \<open>The package's sentinel errors, and the errors it formats or receives.\<close>

datatype error =
    ErrNotFound
  | ErrNotImplemented
  | ErrTransactionClosed
  | ErrWrongTXType
  | errFinished
  | ErrTreeNeedsInit
  | ErrNotMultipleOf8 int
  | ErrPrefixMismatch "byte list" "byte list option"
  | ErrRevTooNew int64 int64
  | ErrUnknownTxType
  | ErrExternal string

datatype panic =
    SliceBoundsOutOfRange int nat
  | NilDereference
  | PanicError error

datatype 'a outcome = Panic panic | Ret 'a

text \<open>
  Modelled from the spec: the declaration of \<open>storage.NodeID\<close> (package \<open>storage\<close>),
  "a bit-path plus bit-length prefix". \<open>subtreeKey\<close> reads these two fields, slicing
  the first as a byte slice and dividing the second as an \<open>int\<close>.
\<close>

record NodeID =
  Path :: go_bytes
  PrefixLenBits :: int

subsection \<open>The subtree key mapping\<close>

text \<open>
  The slice expression \<open>s[:n]\<close> of Go: in range when \<open>0 \<le> n \<le> cap(s)\<close> (the capacity,
  not the length, bounds the upper index of a slice); a run-time panic otherwise.
\<close>

definition slice_to :: "go_bytes \<Rightarrow> int \<Rightarrow> (byte list) outcome" where
  "slice_to s n =
     (if 0 \<le> n \<and> nat n \<le> cap s then Ret (take (nat n) (elems s @ spare s))
      else Panic (SliceBoundsOutOfRange n (cap s)))"

definition subtreeKey :: "NodeID \<Rightarrow> (byte list \<times> error option) outcome" where
  "subtreeKey nid =
     (if PrefixLenBits nid smod 8 \<noteq> 0
      then Ret ([], Some (ErrNotMultipleOf8 (PrefixLenBits nid)))
      else (case slice_to (Path nid) (PrefixLenBits nid sdiv 8) of
              Panic p \<Rightarrow> Panic p
            | Ret k \<Rightarrow> Ret (k, None)))"

subsection \<open>Stored data\<close>

text \<open>
  \<open>storagepb.SubtreeProto\<close> (storage/proto/storage.pb.go). A nil \<open>Prefix\<close> is \<open>None\<close>;
  the two maps are association lists.
\<close>

record SubtreeProto =
  Prefix :: "byte list option"
  Depth :: int32
  RootHash :: "byte list"
  Leaves :: "(string \<times> byte list) list"
  InternalNodes :: "(string \<times> byte list) list"

datatype DigitallySigned = DigitallySigned "byte list"
datatype Any = Any "byte list"

text \<open>
  Modelled from the spec: the declaration of \<open>spannerpb.TreeHead\<close> (package
  \<open>spannerpb\<close>), "tree identifier, revision number, timestamp, tree size, root hash,
  signature, opaque metadata blob"; these are the fields \<open>latestSTH\<close> fills. The root
  hash is \<open>HeadRootHash\<close> here, apart from the subtree's.
\<close>

record TreeHead =
  TreeId :: int64
  TsNanos :: int64
  TreeSize :: int64
  HeadRootHash :: "byte list"
  Signature :: DigitallySigned
  TreeRevision :: int64
  Metadata :: Any

text \<open>
  Modelled from the spec: the declaration of \<open>storage.Node\<close> (package \<open>storage\<close>), a
  node id with the hash to record for it; \<open>SetMerkleNodes\<close> reads \<open>NodeID\<close> and \<open>Hash\<close>.
\<close>

record Node =
  NodeID :: NodeID
  Hash :: "byte list"
  NodeRevision :: int64

subsection \<open>The backend scope\<close>

text \<open>
  A \<open>spanner.RowIterator\<close> yields rows and ends, or stops at a read error.
  \<open>Do\<close> calls the function on each row in turn and stops at its first error; \<open>'v\<close>
  are the variables the function closes over.
\<close>

datatype 'r RowIterator = IterDone | IterFail error | IterNext 'r "'r RowIterator"

fun Do :: "'r RowIterator \<Rightarrow> ('r \<Rightarrow> 'v \<Rightarrow> error option \<times> 'v) \<Rightarrow> 'v \<Rightarrow> error option \<times> 'v" where
  "Do IterDone f v = (None, v)"
| "Do (IterFail e) f v = (Some e, v)"
| "Do (IterNext r it) f v =
     (case f r v of
        (Some e, v') \<Rightarrow> (Some e, v')
      | (None, v') \<Rightarrow> Do it f v')"

text \<open>
  What \<open>r.Columns\<close> gives for a row of the subtree table (the revision and the
  serialized subtree) and for a row of the tree head query, or its error.
\<close>

type_synonym SubtreeRow = "error + (int64 \<times> byte list)"

record HeadColumns =
  colTreeId :: int64
  colTsNanos :: int64
  colTreeSize :: int64
  colRootHash :: "byte list"
  colSig :: "byte list"
  colTreeRevision :: int64
  colMeta :: "byte list"

type_synonym HeadRow = "error + HeadColumns"

text \<open>
  \<open>spanner.Insert(subtreeTbl, [TreeID, SubtreeID, Revision, Subtree], values)\<close>: the
  four values.
\<close>

datatype Mutation = Insert int64 "byte list option" int64 "byte list"

text \<open>
  The Spanner transaction behind \<open>stx\<close>: \<open>Query\<close> is the result of the tree head
  statement for a tree id, \<open>Read\<close> the rows of the subtree table under the key prefix
  (tree id, subtree id), in the order the backend delivers them. \<open>BufferWrite\<close> appends
  to \<open>buffered\<close> unless the client reports an error.
\<close>

record spanTx =
  Query :: "int64 \<Rightarrow> HeadRow RowIterator"
  Read :: "int64 \<times> byte list \<Rightarrow> SubtreeRow RowIterator"
  BufferWriteErr :: "Mutation list \<Rightarrow> error option"
  buffered :: "Mutation list"
  released :: bool

definition BufferWrite :: "spanTx \<Rightarrow> Mutation list \<Rightarrow> error option \<times> spanTx" where
  "BufferWrite s ms =
     (case BufferWriteErr s ms of
        Some e \<Rightarrow> (Some e, s)
      | None \<Rightarrow> (None, s\<lparr>buffered := buffered s @ ms\<rparr>))"

text \<open>The dynamic type of the \<open>spanRead\<close> interface value \<open>stx\<close>; nil is \<open>None\<close>.\<close>

datatype stxType = ReadOnlyTransaction | ReadWriteTransaction | OtherSpanRead

text \<open>What a fetching goroutine sends: an error on \<open>errc\<close> or a subtree on \<open>c\<close>.\<close>

datatype Msg = OnErrc error | OnC "SubtreeProto option"

text \<open>
  The collaborators of the transaction that live outside this file, taken as
  parameters: the proto codec, the subtree cache (package \<open>storage/cache\<close>; \<open>'c\<close> is
  its state, threaded through its three methods) and, for the concurrent fetch, the
  order in which the goroutines' messages are received. A loader or miss handler that
  panics makes the cache method panic in Go; here the cache is handed the outcome.
  \<open>SetNodeHash\<close> gives the state it leaves the cache in on every path, a panic included.
\<close>

record 'c deps =
  UnmarshalSubtree :: "byte list \<Rightarrow> error + SubtreeProto"
  MarshalSubtree :: "SubtreeProto \<Rightarrow> error + byte list"
  UnmarshalSigned :: "byte list \<Rightarrow> error + DigitallySigned"
  UnmarshalAny :: "byte list \<Rightarrow> error + Any"
  GetNodes :: "'c \<Rightarrow> NodeID list
     \<Rightarrow> (NodeID list \<Rightarrow> (SubtreeProto list \<times> error option) outcome)
     \<Rightarrow> ((Node list \<times> error option) \<times> 'c) outcome"
  SetNodeHash :: "'c \<Rightarrow> NodeID \<Rightarrow> byte list
     \<Rightarrow> (NodeID \<Rightarrow> (SubtreeProto option \<times> error option) outcome)
     \<Rightarrow> (error option) outcome \<times> 'c"
  Flush :: "'c \<Rightarrow> (SubtreeProto option list \<Rightarrow> spanTx \<Rightarrow> error option \<times> spanTx)
     \<Rightarrow> spanTx \<Rightarrow> error option \<times> 'c \<times> spanTx"
  arrival :: "Msg list \<Rightarrow> Msg list"

subsection \<open>The tree transaction\<close>

text \<open>
  \<open>treeTX\<close>. The fields \<open>_currentSTH\<close>, \<open>_currentSTHErr\<close> and \<open>_writeRev\<close> are
  \<open>fld_currentSTH\<close>, \<open>fld_currentSTHErr\<close> and \<open>fld_writeRev\<close>; \<open>getLatestRootOnce\<close>
  holds whether the \<open>sync.Once\<close> has run. The Spanner transaction \<open>stx\<close> points to is
  passed beside the transaction.
\<close>

record 'c treeTX =
  treeID :: int64
  stx :: "stxType option"
  fld_currentSTH :: "TreeHead option"
  fld_currentSTHErr :: "error option"
  fld_writeRev :: int64
  cache :: 'c
  getLatestRootOnce :: bool

definition headRowFn :: "'c deps \<Rightarrow> HeadRow \<Rightarrow> TreeHead option \<Rightarrow> error option \<times> TreeHead option" where
  "headRowFn d r th =
     (case r of
        Inl err \<Rightarrow> (Some err, th)
      | Inr cols \<Rightarrow>
          (case UnmarshalSigned d (colSig cols) of
             Inl err \<Rightarrow> (Some err, th)
           | Inr sigPB \<Rightarrow>
               (case UnmarshalAny d (colMeta cols) of
                  Inl err \<Rightarrow> (Some err, th)
                | Inr metaPB \<Rightarrow>
                    (None, Some \<lparr>TreeId = colTreeId cols, TsNanos = colTsNanos cols,
                       TreeSize = colTreeSize cols, HeadRootHash = colRootHash cols,
                       Signature = sigPB, TreeRevision = colTreeRevision cols,
                       Metadata = metaPB\<rparr>))))"

definition latestSTH ::
  "'c deps \<Rightarrow> spanTx \<Rightarrow> stxType option \<Rightarrow> int64 \<Rightarrow> (TreeHead option \<times> error option) outcome" where
  "latestSTH d s stxv tid =
     (case stxv of
        None \<Rightarrow> Panic NilDereference
      | Some _ \<Rightarrow>
          (case Do (Query s tid) (headRowFn d) None of
             (Some err, _) \<Rightarrow> Ret (None, Some err)
           | (None, None) \<Rightarrow> Ret (None, Some ErrTreeNeedsInit)
           | (None, Some th) \<Rightarrow> Ret (Some th, None)))"

text \<open>
  \<open>getLatestRoot\<close> and the accessors built on it return what the call returns, or the
  panic it raises, together with the transaction as the call leaves it. When the
  function given to \<open>getLatestRootOnce.Do\<close> panics, the \<open>sync.Once\<close> is done all the same
  and the fields it would have assigned keep their values.
\<close>

definition getLatestRoot :: "'c deps \<Rightarrow> 'c treeTX \<Rightarrow> spanTx \<Rightarrow> (error option) outcome \<times> 'c treeTX" where
  "getLatestRoot d t s =
     (if getLatestRootOnce t then (Ret (fld_currentSTHErr t), t)
      else (case latestSTH d s (stx t) (treeID t) of
              Panic p \<Rightarrow> (Panic p, t\<lparr>getLatestRootOnce := True\<rparr>)
            | Ret (th, err) \<Rightarrow>
                (let t1 = t\<lparr>fld_currentSTH := th, fld_currentSTHErr := err,
                              getLatestRootOnce := True\<rparr>;
                     t2 = (case th of
                             Some h \<Rightarrow> t1\<lparr>fld_writeRev := TreeRevision h + 1\<rparr>
                           | None \<Rightarrow> t1)
                 in (Ret (fld_currentSTHErr t2), t2))))"

definition currentSTH ::
  "'c deps \<Rightarrow> 'c treeTX \<Rightarrow> spanTx \<Rightarrow> (TreeHead option \<times> error option) outcome \<times> 'c treeTX" where
  "currentSTH d t s =
     (case getLatestRoot d t s of
        (Panic p, t') \<Rightarrow> (Panic p, t')
      | (Ret (Some err), t') \<Rightarrow> (Ret (None, Some err), t')
      | (Ret None, t') \<Rightarrow> (Ret (fld_currentSTH t', None), t'))"

definition writeRev ::
  "'c deps \<Rightarrow> 'c treeTX \<Rightarrow> spanTx \<Rightarrow> (int64 \<times> error option) outcome \<times> 'c treeTX" where
  "writeRev d t s =
     (case getLatestRoot d t s of
        (Panic p, t') \<Rightarrow> (Panic p, t')
      | (Ret (Some err), t') \<Rightarrow> (Ret (- 1, Some err), t')
      | (Ret None, t') \<Rightarrow> (Ret (fld_writeRev t', None), t'))"

definition ReadRevision :: "'c deps \<Rightarrow> 'c treeTX \<Rightarrow> spanTx \<Rightarrow> int64 outcome \<times> 'c treeTX" where
  "ReadRevision d t s =
     (case currentSTH d t s of
        (Panic p, t') \<Rightarrow> (Panic p, t')
      | (Ret (_, Some err), t') \<Rightarrow> (Panic (PanicError err), t')
      | (Ret (None, None), t') \<Rightarrow> (Panic NilDereference, t')
      | (Ret (Some sth, None), t') \<Rightarrow> (Ret (TreeRevision sth), t'))"

definition WriteRevision :: "'c deps \<Rightarrow> 'c treeTX \<Rightarrow> spanTx \<Rightarrow> int64 outcome \<times> 'c treeTX" where
  "WriteRevision d t s =
     (case writeRev d t s of
        (Panic p, t') \<Rightarrow> (Panic p, t')
      | (Ret (_, Some err), t') \<Rightarrow> (Panic (PanicError err), t')
      | (Ret (rv, None), t') \<Rightarrow> (Ret rv, t'))"

subsection \<open>Writing subtrees, and the end of a transaction\<close>

fun storeLoop ::
  "'c deps \<Rightarrow> 'c treeTX \<Rightarrow> SubtreeProto option list \<Rightarrow> spanTx \<Rightarrow> error option \<times> spanTx" where
  "storeLoop d t [] s = (None, s)"
| "storeLoop d t (None # sts) s = storeLoop d t sts s"
| "storeLoop d t (Some st # sts) s =
     (case MarshalSubtree d st of
        Inl err \<Rightarrow> (Some err, s)
      | Inr stBytes \<Rightarrow>
          (case BufferWrite s [Insert (treeID t) (Prefix st) (fld_writeRev t) stBytes] of
             (Some err, s') \<Rightarrow> (Some err, s')
           | (None, s') \<Rightarrow> storeLoop d t sts s'))"

definition storeSubtrees ::
  "'c deps \<Rightarrow> 'c treeTX \<Rightarrow> SubtreeProto option list \<Rightarrow> spanTx \<Rightarrow> error option \<times> spanTx" where
  "storeSubtrees d t sts s =
     (case stx t of
        Some ReadWriteTransaction \<Rightarrow> storeLoop d t sts s
      | _ \<Rightarrow> (Some ErrWrongTXType, s))"

definition flushSubtrees ::
  "'c deps \<Rightarrow> 'c treeTX \<Rightarrow> spanTx \<Rightarrow> error option \<times> 'c treeTX \<times> spanTx" where
  "flushSubtrees d t s =
     (case Flush d (cache t) (storeSubtrees d t) s of
        (err, c', s') \<Rightarrow> (err, t\<lparr>cache := c'\<rparr>, s'))"

text \<open>The deferred function of \<open>Commit\<close> and \<open>Rollback\<close> sets \<open>stx\<close> to nil on every path.\<close>

definition Commit :: "'c deps \<Rightarrow> 'c treeTX \<Rightarrow> spanTx \<Rightarrow> error option \<times> 'c treeTX \<times> spanTx" where
  "Commit d t s =
     (case stx t of
        None \<Rightarrow> (Some ErrTransactionClosed, t\<lparr>stx := None\<rparr>, s)
      | Some ReadOnlyTransaction \<Rightarrow> (None, t\<lparr>stx := None\<rparr>, s\<lparr>released := True\<rparr>)
      | Some ReadWriteTransaction \<Rightarrow>
          (case flushSubtrees d t s of
             (err, t', s') \<Rightarrow> (err, t'\<lparr>stx := None\<rparr>, s'))
      | Some OtherSpanRead \<Rightarrow> (Some ErrUnknownTxType, t\<lparr>stx := None\<rparr>, s))"

definition Rollback :: "'c treeTX \<Rightarrow> error option \<times> 'c treeTX" where
  "Rollback t =
     (case stx t of
        None \<Rightarrow> (Some ErrTransactionClosed, t\<lparr>stx := None\<rparr>)
      | Some _ \<Rightarrow> (None, t\<lparr>stx := None\<rparr>))"

definition IsOpen :: "'c treeTX \<Rightarrow> bool" where
  "IsOpen t = (stx t \<noteq> None)"

definition Close :: "'c treeTX \<Rightarrow> error option \<times> 'c treeTX" where
  "Close t =
     (if IsOpen t
      then (case Rollback t of
              (Some err, t') \<Rightarrow>
                (if err \<noteq> ErrTransactionClosed then (Some err, t') else (None, t'))
            | (None, t') \<Rightarrow> (None, t'))
      else (None, t))"

subsection \<open>Reading a subtree\<close>

text \<open>\<open>bytes.Equal\<close>: a nil slice equals an empty one.\<close>

definition bytes_Equal :: "byte list \<Rightarrow> byte list option \<Rightarrow> bool" where
  "bytes_Equal a b = (a = (case b of None \<Rightarrow> [] | Some x \<Rightarrow> x))"

text \<open>
  The function \<open>getSubtree\<close> passes to \<open>rows.Do\<close>; it closes over \<open>ret\<close>. As \<open>ret\<close>
  points to \<open>st\<close>, the empty prefix set afterwards shows in \<open>ret\<close>.
\<close>

definition subtreeRowFn ::
  "'c deps \<Rightarrow> int64 \<Rightarrow> byte list \<Rightarrow> SubtreeRow \<Rightarrow> SubtreeProto option
     \<Rightarrow> error option \<times> SubtreeProto option" where
  "subtreeRowFn d rv stID r ret =
     (case r of
        Inl err \<Rightarrow> (Some err, ret)
      | Inr (rRev, stBytes) \<Rightarrow>
          (case UnmarshalSubtree d stBytes of
             Inl err \<Rightarrow> (Some err, ret)
           | Inr st \<Rightarrow>
               (if sint rv < sint rRev then (None, ret)
                else if \<not> bytes_Equal stID (Prefix st)
                  then (Some (ErrPrefixMismatch stID (Prefix st)), ret)
                else if sint rv < sint rRev then (Some (ErrRevTooNew rRev rv), ret)
                else (Some errFinished,
                      Some (if Prefix st = None \<and> length stID = 0
                            then st\<lparr>Prefix := Some []\<rparr> else st)))))"

definition getSubtree ::
  "'c deps \<Rightarrow> 'c treeTX \<Rightarrow> spanTx \<Rightarrow> int64 \<Rightarrow> NodeID
     \<Rightarrow> (SubtreeProto option \<times> error option) outcome" where
  "getSubtree d t s rv nid =
     (case subtreeKey nid of
        Panic p \<Rightarrow> Panic p
      | Ret (_, Some err) \<Rightarrow> Ret (None, Some err)
      | Ret (stID, None) \<Rightarrow>
          (case stx t of
             None \<Rightarrow> Panic NilDereference
           | Some _ \<Rightarrow>
               (case Do (Read s (treeID t, stID)) (subtreeRowFn d rv stID) None of
                  (err, ret) \<Rightarrow> Ret (ret, if err = Some errFinished then None else err))))"

subsection \<open>Node reads and writes through the cache\<close>

text \<open>
  The miss handler of \<open>GetMerkleNodes\<close>. Every goroutine sends one message; the loop
  receives \<open>len(ids)\<close> of them, in the order \<open>arrival\<close> gives, and returns at the first
  error it receives. A panic in a goroutine ends the process: the handler's outcome is
  then that panic.
\<close>

definition message :: "SubtreeProto option \<times> error option \<Rightarrow> Msg" where
  "message r = (case r of (st, Some err) \<Rightarrow> OnErrc err | (st, None) \<Rightarrow> OnC st)"

fun collect :: "Msg list \<Rightarrow> SubtreeProto list \<Rightarrow> SubtreeProto list \<times> error option" where
  "collect [] ret = (ret, None)"
| "collect (OnErrc err # ms) ret = ([], Some err)"
| "collect (OnC None # ms) ret = collect ms ret"
| "collect (OnC (Some st) # ms) ret = collect ms (ret @ [st])"

fun returned :: "'a outcome list \<Rightarrow> ('a list) outcome" where
  "returned [] = Ret []"
| "returned (Panic p # os) = Panic p"
| "returned (Ret x # os) = (case returned os of Panic p \<Rightarrow> Panic p | Ret xs \<Rightarrow> Ret (x # xs))"

definition fetchSubtrees ::
  "'c deps \<Rightarrow> 'c treeTX \<Rightarrow> spanTx \<Rightarrow> int64 \<Rightarrow> NodeID list
     \<Rightarrow> (SubtreeProto list \<times> error option) outcome" where
  "fetchSubtrees d t s rv ids =
     (case returned (map (getSubtree d t s rv) ids) of
        Panic p \<Rightarrow> Panic p
      | Ret rs \<Rightarrow> Ret (collect (arrival d (map message rs)) []))"

definition GetMerkleNodes ::
  "'c deps \<Rightarrow> 'c treeTX \<Rightarrow> spanTx \<Rightarrow> int64 \<Rightarrow> NodeID list
     \<Rightarrow> ((Node list \<times> error option) \<times> 'c treeTX) outcome" where
  "GetMerkleNodes d t s rv ids =
     (case stx t of
        None \<Rightarrow> Ret (([], Some ErrTransactionClosed), t)
      | Some _ \<Rightarrow>
          (case GetNodes d (cache t) ids (fetchSubtrees d t s rv) of
             Panic p \<Rightarrow> Panic p
           | Ret (res, c') \<Rightarrow> Ret (res, t\<lparr>cache := c'\<rparr>)))"

text \<open>
  The loop of \<open>SetMerkleNodes\<close> over the nodes, with the loader it hands to the cache;
  it leaves at the first error or panic of the cache.
\<close>

fun setNodeHashes ::
  "'c deps \<Rightarrow> (NodeID \<Rightarrow> (SubtreeProto option \<times> error option) outcome) \<Rightarrow> Node list \<Rightarrow> 'c
     \<Rightarrow> (error option) outcome \<times> 'c" where
  "setNodeHashes d loader [] c = (Ret None, c)"
| "setNodeHashes d loader (n # ns) c =
     (case SetNodeHash d c (NodeID n) (Hash n) loader of
        (Panic p, c') \<Rightarrow> (Panic p, c')
      | (Ret (Some err), c') \<Rightarrow> (Ret (Some err), c')
      | (Ret None, c') \<Rightarrow> setNodeHashes d loader ns c')"

definition SetMerkleNodes ::
  "'c deps \<Rightarrow> 'c treeTX \<Rightarrow> spanTx \<Rightarrow> Node list \<Rightarrow> (error option) outcome \<times> 'c treeTX" where
  "SetMerkleNodes d t s nodes =
     (case stx t of
        None \<Rightarrow> (Ret (Some ErrTransactionClosed), t)
      | Some _ \<Rightarrow>
          (case writeRev d t s of
             (Panic p, t1) \<Rightarrow> (Panic p, t1)
           | (Ret (_, Some err), t1) \<Rightarrow> (Ret (Some err), t1)
           | (Ret (wr, None), t1) \<Rightarrow>
               (case setNodeHashes d (\<lambda>nID. getSubtree d t1 s (wr - 1) nID) nodes (cache t1) of
                  (res, c') \<Rightarrow> (res, t1\<lparr>cache := c'\<rparr>))))"

subsection \<open>Notions the properties are stated with\<close>

text \<open>The rows an iterator yields, in order, and the read error it stops at, if any.\<close>

fun iterRows :: "'r RowIterator \<Rightarrow> 'r list" where
  "iterRows IterDone = []"
| "iterRows (IterFail e) = []"
| "iterRows (IterNext r it) = r # iterRows it"

fun iterEnd :: "'r RowIterator \<Rightarrow> error option" where
  "iterEnd IterDone = None"
| "iterEnd (IterFail e) = Some e"
| "iterEnd (IterNext r it) = iterEnd it"

text \<open>
  A stored row that decodes: its revision and its subtree. \<open>shown\<close> is the subtree as
  \<open>getSubtree\<close> returns it, with the empty prefix made explicit for the root key.
\<close>

definition decoded :: "'c deps \<Rightarrow> SubtreeRow \<Rightarrow> (int64 \<times> SubtreeProto) option" where
  "decoded d r =
     (case r of
        Inl err \<Rightarrow> None
      | Inr (rRev, stBytes) \<Rightarrow>
          (case UnmarshalSubtree d stBytes of Inl err \<Rightarrow> None | Inr st \<Rightarrow> Some (rRev, st)))"

definition shown :: "byte list \<Rightarrow> SubtreeProto \<Rightarrow> SubtreeProto" where
  "shown stID st = (if Prefix st = None \<and> length stID = 0 then st\<lparr>Prefix := Some []\<rparr> else st)"

text \<open>
  The revision a row holds, as a signed number, and whether a row decodes to a subtree
  that carries the key it was read under.
\<close>

definition storedRevision :: "SubtreeRow \<Rightarrow> int" where
  "storedRevision r = (case r of Inl err \<Rightarrow> 0 | Inr (rRev, stBytes) \<Rightarrow> sint rRev)"

definition decodes :: "'c deps \<Rightarrow> byte list \<Rightarrow> SubtreeRow \<Rightarrow> bool" where
  "decodes d stID r =
     (case decoded d r of None \<Rightarrow> False | Some (rRev, st) \<Rightarrow> bytes_Equal stID (Prefix st))"

text \<open>Calls that end a transaction, and a sequence of them run one after the other.\<close>

datatype call = CallCommit | CallRollback | CallClose

fun runCall :: "'c deps \<Rightarrow> call \<Rightarrow> 'c treeTX \<Rightarrow> spanTx \<Rightarrow> error option \<times> 'c treeTX \<times> spanTx" where
  "runCall d CallCommit t s = Commit d t s"
| "runCall d CallRollback t s = (case Rollback t of (err, t') \<Rightarrow> (err, t', s))"
| "runCall d CallClose t s = (case Close t of (err, t') \<Rightarrow> (err, t', s))"

fun calls ::
  "'c deps \<Rightarrow> call list \<Rightarrow> 'c treeTX \<Rightarrow> spanTx \<Rightarrow> error option list \<times> 'c treeTX \<times> spanTx" where
  "calls d [] t s = ([], t, s)"
| "calls d (c # cs) t s =
     (case runCall d c t s of
        (err, t', s') \<Rightarrow> (case calls d cs t' s' of (errs, t'', s'') \<Rightarrow> (err # errs, t'', s'')))"

subsection \<open>A codec and a cache to run the code on\<close>

text \<open>
  Stand-ins for the collaborators, used where the code is evaluated on concrete inputs.
  The codec writes a subtree as the length of its prefix, the prefix and the root hash.
  The cache keeps the subtrees it was asked to change: \<open>SetNodeHash\<close> loads the subtree
  of the node with the loader and records the hash as its root hash, \<open>GetNodes\<close> asks
  the handler for all the ids and fails when it fails, \<open>Flush\<close> hands every kept subtree
  to the writer. Messages arrive in the order the goroutines were started.
\<close>

fun demoUnmarshal :: "byte list \<Rightarrow> error + SubtreeProto" where
  "demoUnmarshal [] = Inl (ErrExternal ''proto: unexpected EOF'')"
| "demoUnmarshal (n # bs) =
     Inr \<lparr>Prefix = (if n = 0 then None else Some (take (unat n) bs)), Depth = 8,
          RootHash = drop (unat n) bs, Leaves = [], InternalNodes = []\<rparr>"

definition demoMarshal :: "SubtreeProto \<Rightarrow> error + byte list" where
  "demoMarshal st =
     (case Prefix st of
        None \<Rightarrow> Inr (0 # RootHash st)
      | Some p \<Rightarrow> Inr (of_nat (length p) # p @ RootHash st))"

definition demoSetNodeHash ::
  "SubtreeProto list \<Rightarrow> NodeID \<Rightarrow> byte list
     \<Rightarrow> (NodeID \<Rightarrow> (SubtreeProto option \<times> error option) outcome)
     \<Rightarrow> (error option) outcome \<times> SubtreeProto list" where
  "demoSetNodeHash c nid h loader =
     (case loader nid of
        Panic p \<Rightarrow> (Panic p, c)
      | Ret (_, Some err) \<Rightarrow> (Ret (Some err), c)
      | Ret (None, None) \<Rightarrow>
          (Ret None, c @ [\<lparr>Prefix = Some (elems (Path nid)), Depth = 8, RootHash = h,
                            Leaves = [], InternalNodes = []\<rparr>])
      | Ret (Some st, None) \<Rightarrow> (Ret None, c @ [st\<lparr>RootHash := h\<rparr>]))"

definition demoGetNodes ::
  "SubtreeProto list \<Rightarrow> NodeID list
     \<Rightarrow> (NodeID list \<Rightarrow> (SubtreeProto list \<times> error option) outcome)
     \<Rightarrow> ((Node list \<times> error option) \<times> SubtreeProto list) outcome" where
  "demoGetNodes c ids handler =
     (case handler ids of
        Panic p \<Rightarrow> Panic p
      | Ret (_, Some err) \<Rightarrow> Ret (([], Some err), c)
      | Ret (sts, None) \<Rightarrow>
          Ret ((map (\<lambda>st. \<lparr>NodeID = \<lparr>Path = \<lparr>elems = (case Prefix st of None \<Rightarrow> [] | Some p \<Rightarrow> p),
                                                 spare = []\<rparr>,
                                       PrefixLenBits = 8 * int (length (case Prefix st of
                                                                         None \<Rightarrow> [] | Some p \<Rightarrow> p))\<rparr>,
                             Hash = RootHash st, NodeRevision = 0\<rparr>) sts, None), c @ sts))"

definition demoFlush ::
  "SubtreeProto list \<Rightarrow> (SubtreeProto option list \<Rightarrow> spanTx \<Rightarrow> error option \<times> spanTx)
     \<Rightarrow> spanTx \<Rightarrow> error option \<times> SubtreeProto list \<times> spanTx" where
  "demoFlush c writer s = (case writer (map Some c) s of (err, s') \<Rightarrow> (err, c, s'))"

definition demo :: "(SubtreeProto list) deps" where
  "demo = \<lparr>UnmarshalSubtree = demoUnmarshal, MarshalSubtree = demoMarshal,
           UnmarshalSigned = (\<lambda>b. Inr (DigitallySigned b)), UnmarshalAny = (\<lambda>b. Inr (Any b)),
           GetNodes = demoGetNodes, SetNodeHash = demoSetNodeHash, Flush = demoFlush,
           arrival = (\<lambda>ms. ms)\<rparr>"

text \<open>
  A cache that only records what the loader returns for each node it is given.
\<close>

definition recording :: "((SubtreeProto option \<times> error option) outcome list) deps" where
  "recording = \<lparr>UnmarshalSubtree = demoUnmarshal, MarshalSubtree = demoMarshal,
           UnmarshalSigned = (\<lambda>b. Inr (DigitallySigned b)), UnmarshalAny = (\<lambda>b. Inr (Any b)),
           GetNodes = (\<lambda>c ids handler. Ret (([], None), c)),
           SetNodeHash = (\<lambda>c nid h loader. (Ret None, c @ [loader nid])),
           Flush = (\<lambda>c writer s. (None, c, s)),
           arrival = (\<lambda>ms. ms)\<rparr>"

text \<open>A fresh transaction, as \<open>begin\<close> builds it, and a backend holding the given rows.\<close>

definition freshTX :: "int64 \<Rightarrow> stxType \<Rightarrow> 'c \<Rightarrow> 'c treeTX" where
  "freshTX tid ty c =
     \<lparr>treeID = tid, stx = Some ty, fld_currentSTH = None, fld_currentSTHErr = None,
      fld_writeRev = 0, cache = c, getLatestRootOnce = False\<rparr>"

definition headRow :: "int64 \<Rightarrow> int64 \<Rightarrow> HeadRow" where
  "headRow tid rv =
     Inr \<lparr>colTreeId = tid, colTsNanos = 1000, colTreeSize = 0, colRootHash = [],
          colSig = [], colTreeRevision = rv, colMeta = []\<rparr>"

definition rootID :: NodeID where
  "rootID = \<lparr>Path = \<lparr>elems = [], spare = []\<rparr>, PrefixLenBits = 0\<rparr>"

fun iterOf :: "'r list \<Rightarrow> 'r RowIterator" where
  "iterOf [] = IterDone"
| "iterOf (r # rs) = IterNext r (iterOf rs)"

definition backend :: "HeadRow list \<Rightarrow> (byte list \<Rightarrow> SubtreeRow list) \<Rightarrow> spanTx" where
  "backend heads rows =
     \<lparr>Query = (\<lambda>tid. iterOf heads), Read = (\<lambda>(tid, k). iterOf (rows k)),
      BufferWriteErr = (\<lambda>ms. None), buffered = [], released = False\<rparr>"

section \<open>Properties\<close>

subsection \<open>The subtree key\<close>

lemma smod_8_zero_iff: "(n::int) smod 8 = 0 \<longleftrightarrow> n mod 8 = 0"
  by (auto simp: signed_modulo_int_def sgn_if abs_if zmod_zminus1_eq_if split: if_splits)

lemma sdiv_8_nonneg: "0 \<le> (n::int) \<Longrightarrow> n sdiv 8 = n div 8"
  by (simp add: signed_divide_int_def sgn_if)

lemma sdiv_8_neg: "(n::int) < 0 \<Longrightarrow> n smod 8 = 0 \<Longrightarrow> n sdiv 8 < 0"
proof -
  assume n: "n < 0" and a: "n smod 8 = 0"
  from a have "n mod 8 = 0" by (simp add: smod_8_zero_iff)
  with n have "- n \<ge> 8" by presburger
  then have "(- n) div 8 \<ge> 1" by presburger
  with n show ?thesis by (simp add: signed_divide_int_def sgn_if abs_if)
qed

lemma slice_to_in_len:
  "0 \<le> n \<Longrightarrow> nat n \<le> len s \<Longrightarrow> slice_to s n = Ret (take (nat n) (elems s))"
  by (simp add: slice_to_def len_def cap_def)

lemma subtreeKey_in_range:
  assumes "PrefixLenBits nid smod 8 = 0" and "0 \<le> PrefixLenBits nid"
    and "PrefixLenBits nid \<le> 8 * int (len (Path nid))"
  shows "subtreeKey nid = Ret (take (nat (PrefixLenBits nid div 8)) (elems (Path nid)), None)"
proof -
  have d: "PrefixLenBits nid sdiv 8 = PrefixLenBits nid div 8"
    using assms(2) by (rule sdiv_8_nonneg)
  have "0 \<le> PrefixLenBits nid div 8" using assms(2) by simp
  moreover have "nat (PrefixLenBits nid div 8) \<le> len (Path nid)" using assms(2,3) by linarith
  ultimately have "slice_to (Path nid) (PrefixLenBits nid div 8)
      = Ret (take (nat (PrefixLenBits nid div 8)) (elems (Path nid)))"
    by (rule slice_to_in_len)
  then show ?thesis using assms(1) by (simp add: subtreeKey_def d)
qed

lemma subtreeKey_not_aligned:
  "PrefixLenBits nid smod 8 \<noteq> 0 \<Longrightarrow>
   subtreeKey nid = Ret ([], Some (ErrNotMultipleOf8 (PrefixLenBits nid)))"
  by (simp add: subtreeKey_def)

lemma aligned_length_determines:
  assumes "(p::int) smod 8 = 0" "0 \<le> p" "(q::int) smod 8 = 0" "0 \<le> q"
    and "nat (p div 8) = nat (q div 8)"
  shows "p = q"
proof -
  from assms(1,3) have m: "p mod 8 = 0" "q mod 8 = 0" by (simp_all add: smod_8_zero_iff)
  from assms(2,4,5) have "p div 8 = q div 8" by (simp add: nat_eq_iff pos_imp_zdiv_nonneg_iff)
  moreover have "p = 8 * (p div 8) + p mod 8" "q = 8 * (q div 8) + q mod 8" by simp_all
  ultimately show ?thesis using m by simp
qed

text \<open>
  C4, as the code has it. For a node id whose prefix length is a multiple of 8 and lies
  within the path (\<open>0 \<le> PrefixLenBits \<le> 8 * len(Path)\<close>), \<open>subtreeKey\<close> returns exactly
  the first \<open>PrefixLenBits / 8\<close> bytes of the path and no error; on such ids equal keys
  mean equal prefix lengths and equal prefix bytes, so distinct byte-aligned prefixes get
  distinct keys; and for every node id whose prefix length is not a multiple of 8 it
  returns the alignment error.
\<close>

theorem subtreeKey_aligned_prefix:
  "(PrefixLenBits nid smod 8 = 0 \<and> 0 \<le> PrefixLenBits nid
      \<and> PrefixLenBits nid \<le> 8 * int (len (Path nid))
    \<longrightarrow> subtreeKey nid
          = Ret (take (nat (PrefixLenBits nid div 8)) (elems (Path nid)), None))
   \<and> (PrefixLenBits a smod 8 = 0 \<and> 0 \<le> PrefixLenBits a
        \<and> PrefixLenBits a \<le> 8 * int (len (Path a))
      \<and> PrefixLenBits b smod 8 = 0 \<and> 0 \<le> PrefixLenBits b
        \<and> PrefixLenBits b \<le> 8 * int (len (Path b))
      \<and> subtreeKey a = subtreeKey b
    \<longrightarrow> PrefixLenBits a = PrefixLenBits b
        \<and> take (nat (PrefixLenBits a div 8)) (elems (Path a))
          = take (nat (PrefixLenBits b div 8)) (elems (Path b)))
   \<and> (PrefixLenBits nid smod 8 \<noteq> 0
    \<longrightarrow> subtreeKey nid = Ret ([], Some (ErrNotMultipleOf8 (PrefixLenBits nid))))"
proof -
  have one: "subtreeKey nid
      = Ret (take (nat (PrefixLenBits nid div 8)) (elems (Path nid)), None)"
    if "PrefixLenBits nid smod 8 = 0 \<and> 0 \<le> PrefixLenBits nid
      \<and> PrefixLenBits nid \<le> 8 * int (len (Path nid))"
    using that by (simp add: subtreeKey_in_range)
  have two: "PrefixLenBits a = PrefixLenBits b
        \<and> take (nat (PrefixLenBits a div 8)) (elems (Path a))
          = take (nat (PrefixLenBits b div 8)) (elems (Path b))"
    if h: "PrefixLenBits a smod 8 = 0 \<and> 0 \<le> PrefixLenBits a
        \<and> PrefixLenBits a \<le> 8 * int (len (Path a))
      \<and> PrefixLenBits b smod 8 = 0 \<and> 0 \<le> PrefixLenBits b
        \<and> PrefixLenBits b \<le> 8 * int (len (Path b))
      \<and> subtreeKey a = subtreeKey b"
  proof -
    let ?ka = "take (nat (PrefixLenBits a div 8)) (elems (Path a))"
    let ?kb = "take (nat (PrefixLenBits b div 8)) (elems (Path b))"
    have ka: "subtreeKey a = Ret (?ka, None)"
      by (rule subtreeKey_in_range) (use h in blast)+
    have kb: "subtreeKey b = Ret (?kb, None)"
      by (rule subtreeKey_in_range) (use h in blast)+
    from h have "subtreeKey a = subtreeKey b" by simp
    then have eq: "?ka = ?kb" unfolding ka kb by simp
    have la: "length ?ka = nat (PrefixLenBits a div 8)"
      using h by (simp add: len_def) linarith
    have lb: "length ?kb = nat (PrefixLenBits b div 8)"
      using h by (simp add: len_def) linarith
    from eq la lb have "nat (PrefixLenBits a div 8) = nat (PrefixLenBits b div 8)" by metis
    with h have pq: "PrefixLenBits a = PrefixLenBits b"
      by (rule_tac aligned_length_determines) simp_all
    show ?thesis by (rule conjI) (fact pq, fact eq)
  qed
  have three: "subtreeKey nid = Ret ([], Some (ErrNotMultipleOf8 (PrefixLenBits nid)))"
    if "PrefixLenBits nid smod 8 \<noteq> 0"
    using that by (rule subtreeKey_not_aligned)
  show ?thesis
    apply (intro conjI)
      apply (rule impI, rule one, assumption)
     apply (rule impI, rule two, assumption)
    apply (rule impI, rule three, assumption)
    done
qed

theorem subtreeKey_aligned_prefix_witness:
  "subtreeKey \<lparr>Path = \<lparr>elems = [1, 2, 3], spare = []\<rparr>, PrefixLenBits = 16\<rparr>
     = Ret ([1, 2], None)
   \<and> subtreeKey \<lparr>Path = \<lparr>elems = [1, 2, 3], spare = []\<rparr>, PrefixLenBits = 12\<rparr>
     = Ret ([], Some (ErrNotMultipleOf8 12))
   \<and> subtreeKey \<lparr>Path = \<lparr>elems = [1, 2, 3], spare = []\<rparr>, PrefixLenBits = 16\<rparr>
     \<noteq> subtreeKey \<lparr>Path = \<lparr>elems = [1, 5, 3], spare = []\<rparr>, PrefixLenBits = 16\<rparr>"
proof -
  let ?a = "\<lparr>Path = \<lparr>elems = [1, 2, 3], spare = []\<rparr>, PrefixLenBits = 16\<rparr>"
  let ?b = "\<lparr>Path = \<lparr>elems = [1, 5, 3], spare = []\<rparr>, PrefixLenBits = 16\<rparr>"
  let ?c = "\<lparr>Path = \<lparr>elems = [1, 2, 3], spare = []\<rparr>, PrefixLenBits = 12\<rparr>"
  have n: "nat (16 div 8) = Suc (Suc 0)" "(16::int) smod 8 = 0" "(12::int) smod 8 \<noteq> 0"
    by (simp_all add: signed_modulo_int_def)
  have "subtreeKey ?a = Ret ([1, 2], None)"
    using subtreeKey_aligned_prefix [of ?a ?a ?b] by (simp add: len_def n)
  moreover have "subtreeKey ?c = Ret ([], Some (ErrNotMultipleOf8 12))"
    using subtreeKey_aligned_prefix [of ?c ?a ?b] by (simp add: n)
  moreover have "subtreeKey ?a \<noteq> subtreeKey ?b"
    using subtreeKey_aligned_prefix [of ?a ?a ?b] by (auto simp: len_def n)
  ultimately show ?thesis by blast
qed

text \<open>
  C4 as stated, for every node id, fails where the prefix length is a multiple of 8 and
  reaches past the path: the slice expression panics and no key is returned.
\<close>

theorem subtreeKey_aligned_prefix_counterexample:
  "PrefixLenBits \<lparr>Path = \<lparr>elems = [1], spare = []\<rparr>, PrefixLenBits = 16\<rparr> smod 8 = 0
   \<and> subtreeKey \<lparr>Path = \<lparr>elems = [1], spare = []\<rparr>, PrefixLenBits = 16\<rparr>
     = Panic (SliceBoundsOutOfRange 2 1)"
  by (simp add: subtreeKey_def slice_to_def cap_def signed_modulo_int_def
      signed_divide_int_def)

lemma aligned_div_le_iff:
  assumes "(n::int) smod 8 = 0" "0 \<le> n"
  shows "nat (n div 8) \<le> c \<longleftrightarrow> n \<le> 8 * int c"
proof -
  from assms(1) have "n mod 8 = 0" by (simp add: smod_8_zero_iff)
  then have "n = 8 * (n div 8)" by presburger
  then show ?thesis using assms(2) by linarith
qed

text \<open>
  C9, as the code has it. \<open>subtreeKey\<close> panics exactly when the prefix length is a
  multiple of 8 and \<open>PrefixLenBits / 8\<close> is negative or exceeds the capacity of the path
  slice; the panic is the slice bounds failure, never an error value. The bound is the
  capacity: a prefix length within the capacity but past the length of the path gives
  no panic, and the key then holds bytes of the backing array behind the path.
\<close>

theorem subtreeKey_panic_iff:
  "(subtreeKey nid = Panic p
     \<longleftrightarrow> PrefixLenBits nid smod 8 = 0
         \<and> (PrefixLenBits nid < 0 \<or> 8 * int (cap (Path nid)) < PrefixLenBits nid)
         \<and> p = SliceBoundsOutOfRange (PrefixLenBits nid sdiv 8) (cap (Path nid)))
   \<and> (PrefixLenBits nid smod 8 = 0 \<and> 0 \<le> PrefixLenBits nid
        \<and> PrefixLenBits nid \<le> 8 * int (cap (Path nid))
      \<longrightarrow> subtreeKey nid
          = Ret (take (nat (PrefixLenBits nid div 8))
                   (elems (Path nid) @ spare (Path nid)), None))"
proof (cases "PrefixLenBits nid smod 8 = 0")
  case False
  then show ?thesis by (simp add: subtreeKey_def)
next
  case al: True
  show ?thesis
  proof (cases "0 \<le> PrefixLenBits nid")
    case True
    then have d: "PrefixLenBits nid sdiv 8 = PrefixLenBits nid div 8"
      by (rule sdiv_8_nonneg)
    have nn: "0 \<le> PrefixLenBits nid div 8" using True by simp
    have le: "nat (PrefixLenBits nid div 8) \<le> cap (Path nid)
        \<longleftrightarrow> PrefixLenBits nid \<le> 8 * int (cap (Path nid))"
      using al True by (rule aligned_div_le_iff)
    show ?thesis
      using al True nn le by (auto simp: subtreeKey_def slice_to_def d)
  next
    case False
    then have neg: "PrefixLenBits nid < 0" by simp
    then have "PrefixLenBits nid sdiv 8 < 0" using al by (rule sdiv_8_neg)
    then show ?thesis
      using al neg by (auto simp: subtreeKey_def slice_to_def)
  qed
qed

theorem subtreeKey_panic_iff_witness:
  "subtreeKey \<lparr>Path = \<lparr>elems = [1], spare = [9]\<rparr>, PrefixLenBits = 24\<rparr>
     = Panic (SliceBoundsOutOfRange 3 2)
   \<and> subtreeKey \<lparr>Path = \<lparr>elems = [1], spare = [9]\<rparr>, PrefixLenBits = - 8\<rparr>
     = Panic (SliceBoundsOutOfRange (- 1) 2)
   \<and> subtreeKey \<lparr>Path = \<lparr>elems = [1], spare = [9]\<rparr>, PrefixLenBits = 16\<rparr>
     = Ret ([1, 9], None)"
proof -
  let ?p = "\<lparr>elems = [1 :: byte], spare = [9]\<rparr>"
  have n: "(24::int) smod 8 = 0" "(24::int) sdiv 8 = 3" "(- 8::int) smod 8 = 0"
    "(- 8::int) sdiv 8 = - 1" "(16::int) smod 8 = 0" "nat (16 div 8) = Suc (Suc 0)"
    by (simp_all add: signed_modulo_int_def signed_divide_int_def)
  have "subtreeKey \<lparr>Path = ?p, PrefixLenBits = 24\<rparr> = Panic (SliceBoundsOutOfRange 3 2)"
    using subtreeKey_panic_iff [of "\<lparr>Path = ?p, PrefixLenBits = 24\<rparr>" "SliceBoundsOutOfRange 3 2"]
    by (simp add: cap_def n)
  moreover have "subtreeKey \<lparr>Path = ?p, PrefixLenBits = - 8\<rparr>
      = Panic (SliceBoundsOutOfRange (- 1) 2)"
    using subtreeKey_panic_iff [of "\<lparr>Path = ?p, PrefixLenBits = - 8\<rparr>"
        "SliceBoundsOutOfRange (- 1) 2"]
    by (simp add: cap_def n)
  moreover have "subtreeKey \<lparr>Path = ?p, PrefixLenBits = 16\<rparr> = Ret ([1, 9], None)"
    using subtreeKey_panic_iff [of "\<lparr>Path = ?p, PrefixLenBits = 16\<rparr>" "NilDereference"]
    by (simp add: cap_def n)
  ultimately show ?thesis by blast
qed

text \<open>
  C9 as stated bounds the prefix length by the length of the path. A path slice of
  length 0 and capacity 1 with a prefix length of 8 exceeds 8 times its length, and
  \<open>subtreeKey\<close> returns a key of one byte.
\<close>

theorem subtreeKey_panic_counterexample:
  "PrefixLenBits \<lparr>Path = \<lparr>elems = [], spare = [7]\<rparr>, PrefixLenBits = 8\<rparr> smod 8 = 0
   \<and> 8 * int (len (Path \<lparr>Path = \<lparr>elems = [], spare = [7]\<rparr>, PrefixLenBits = 8\<rparr>))
       < PrefixLenBits \<lparr>Path = \<lparr>elems = [], spare = [7]\<rparr>, PrefixLenBits = 8\<rparr>
   \<and> subtreeKey \<lparr>Path = \<lparr>elems = [], spare = [7]\<rparr>, PrefixLenBits = 8\<rparr>
     = Ret ([7], None)"
  by (simp add: subtreeKey_def slice_to_def cap_def len_def signed_modulo_int_def
      signed_divide_int_def)

subsection \<open>Commit, Rollback and Close\<close>

lemma closed_Commit: "stx t = None \<Longrightarrow> Commit d t s = (Some ErrTransactionClosed, t, s)"
  by (simp add: Commit_def)

lemma closed_Rollback: "stx t = None \<Longrightarrow> Rollback t = (Some ErrTransactionClosed, t)"
  by (simp add: Rollback_def)

lemma closed_Close: "stx t = None \<Longrightarrow> Close t = (None, t)"
  by (simp add: Close_def IsOpen_def)

lemma Commit_closes: "stx (fst (snd (Commit d t s))) = None"
  by (simp add: Commit_def flushSubtrees_def split: option.splits stxType.splits prod.splits)

lemma Rollback_closes: "stx (snd (Rollback t)) = None"
  by (simp add: Rollback_def split: option.splits)

lemma closed_calls:
  "stx t = None \<Longrightarrow>
   calls d cs t s = (map (\<lambda>c. if c = CallClose then None else Some ErrTransactionClosed) cs, t, s)"
proof (induction cs)
  case Nil
  then show ?case by simp
next
  case (Cons c cs)
  then show ?case
    by (cases c) (simp_all add: closed_Commit closed_Rollback closed_Close)
qed

text \<open>
  C5. Whatever the transaction and its scope were, after a first Commit or Rollback
  (whatever it returned) the transaction is closed, and in every later sequence of
  Commit, Rollback and Close calls each Commit and each Rollback returns
  \<open>ErrTransactionClosed\<close>, each Close returns nil, and neither the transaction nor the
  scope changes again.
\<close>

theorem closed_after_first_end:
  "(first = CallCommit \<or> first = CallRollback) \<and> runCall d first t s = (e, t1, s1)
   \<longrightarrow> \<not> IsOpen t1
     \<and> calls d cs t1 s1
         = (map (\<lambda>c. if c = CallClose then None else Some ErrTransactionClosed) cs, t1, s1)"
proof (intro impI)
  assume h: "(first = CallCommit \<or> first = CallRollback) \<and> runCall d first t s = (e, t1, s1)"
  have "stx t1 = None"
  proof (cases "first = CallCommit")
    case True
    with h have "Commit d t s = (e, t1, s1)" by simp
    then have "t1 = fst (snd (Commit d t s))" by simp
    then show ?thesis by (simp only: Commit_closes)
  next
    case False
    with h have "first = CallRollback" by simp
    with h have "t1 = snd (Rollback t)" by (auto split: prod.splits)
    then show ?thesis by (simp only: Rollback_closes)
  qed
  then show "\<not> IsOpen t1
     \<and> calls d cs t1 s1
         = (map (\<lambda>c. if c = CallClose then None else Some ErrTransactionClosed) cs, t1, s1)"
    by (simp add: IsOpen_def closed_calls)
qed

theorem closed_after_first_end_witness:
  "runCall demo CallCommit (freshTX 1 ReadWriteTransaction []) (backend [] (\<lambda>k. []))
     = (None, (freshTX 1 ReadWriteTransaction [])\<lparr>stx := None\<rparr>, backend [] (\<lambda>k. []))
   \<and> \<not> IsOpen ((freshTX 1 ReadWriteTransaction [])\<lparr>stx := None\<rparr> :: (SubtreeProto list) treeTX)
   \<and> calls demo [CallCommit, CallRollback, CallClose, CallCommit]
         ((freshTX 1 ReadWriteTransaction [])\<lparr>stx := None\<rparr>) (backend [] (\<lambda>k. []))
       = ([Some ErrTransactionClosed, Some ErrTransactionClosed, None, Some ErrTransactionClosed],
          (freshTX 1 ReadWriteTransaction [])\<lparr>stx := None\<rparr>, backend [] (\<lambda>k. []))"
proof -
  let ?t = "freshTX 1 ReadWriteTransaction ([] :: SubtreeProto list)"
  let ?s = "backend [] (\<lambda>k. [])"
  have run: "runCall demo CallCommit ?t ?s = (None, ?t\<lparr>stx := None\<rparr>, ?s)"
    by (simp add: Commit_def flushSubtrees_def storeSubtrees_def demo_def demoFlush_def
        freshTX_def)
  show ?thesis
    using run closed_after_first_end [of CallCommit demo ?t ?s None "?t\<lparr>stx := None\<rparr>" ?s
        "[CallCommit, CallRollback, CallClose, CallCommit]"]
    by simp
qed

subsection \<open>Reading a subtree at a revision\<close>

lemma subtreeRowFn_decoded:
  "decoded d r = Some (rRev, st) \<Longrightarrow>
   subtreeRowFn d rv k r ret =
     (if sint rv < sint rRev then (None, ret)
      else if \<not> bytes_Equal k (Prefix st) then (Some (ErrPrefixMismatch k (Prefix st)), ret)
      else (Some errFinished, Some (shown k st)))"
  by (auto simp: subtreeRowFn_def decoded_def shown_def split: sum.splits prod.splits)

lemma subtreeRowFn_undecoded:
  "decoded d r = None \<Longrightarrow> \<exists>e. subtreeRowFn d rv k r ret = (Some e, ret)"
  by (auto simp: subtreeRowFn_def decoded_def split: sum.splits prod.splits)

lemma subtreeRowFn_too_new:
  "decoded d r = Some (rRev, st) \<Longrightarrow> sint rv < sint rRev \<Longrightarrow>
   subtreeRowFn d rv k r ret = (None, ret)"
  by (simp add: subtreeRowFn_decoded)

lemma subtreeRowFn_match:
  "decoded d r = Some (rRev, st) \<Longrightarrow> \<not> sint rv < sint rRev \<Longrightarrow> bytes_Equal k (Prefix st) \<Longrightarrow>
   subtreeRowFn d rv k r ret = (Some errFinished, Some (shown k st))"
  by (simp add: subtreeRowFn_decoded)

lemma subtreeRowFn_sets:
  assumes "subtreeRowFn d rv k r ret = (e, Some p)"
  shows "ret = Some p \<or>
   (e = Some errFinished \<and> (\<exists>rRev st. decoded d r = Some (rRev, st) \<and> sint rRev \<le> sint rv
       \<and> bytes_Equal k (Prefix st) \<and> p = shown k st))"
proof (cases "decoded d r")
  case None
  from subtreeRowFn_undecoded [OF this, of rv k ret] assms show ?thesis by auto
next
  case (Some a)
  obtain rRev st where "a = (rRev, st)" by (cases a)
  with Some have dec: "decoded d r = Some (rRev, st)" by simp
  from assms show ?thesis
    unfolding subtreeRowFn_decoded [OF dec] using dec by (auto split: if_splits)
qed

lemma Do_all_too_new:
  "\<forall>r\<in>set (iterRows it). \<exists>rRev st. decoded d r = Some (rRev, st) \<and> sint rv < sint rRev \<Longrightarrow>
   Do it (subtreeRowFn d rv k) ret = (iterEnd it, ret)"
proof (induction it)
  case (IterNext r it)
  then obtain rRev st where "decoded d r = Some (rRev, st)" "sint rv < sint rRev" by auto
  then have "subtreeRowFn d rv k r ret = (None, ret)" by (rule subtreeRowFn_too_new)
  with IterNext show ?case by simp
qed simp_all

lemma Do_returns_stored:
  "Do it (subtreeRowFn d rv k) ret = (e, Some p) \<Longrightarrow>
   ret = Some p \<or>
   (e = Some errFinished \<and> (\<exists>r\<in>set (iterRows it). \<exists>rRev st. decoded d r = Some (rRev, st)
       \<and> sint rRev \<le> sint rv \<and> bytes_Equal k (Prefix st) \<and> p = shown k st))"
proof (induction it arbitrary: ret)
  case (IterNext r it)
  obtain e1 ret1 where f: "subtreeRowFn d rv k r ret = (e1, ret1)" by (cases "subtreeRowFn d rv k r ret")
  show ?case
  proof (cases e1)
    case None
    with f IterNext.prems have "Do it (subtreeRowFn d rv k) ret1 = (e, Some p)" by simp
    from IterNext.IH [OF this] show ?thesis
    proof
      assume "ret1 = Some p"
      with f None subtreeRowFn_sets [of d rv k r ret e1 p] show ?thesis by auto
    next
      assume "e = Some errFinished \<and> (\<exists>r\<in>set (iterRows it). \<exists>rRev st. decoded d r = Some (rRev, st)
       \<and> sint rRev \<le> sint rv \<and> bytes_Equal k (Prefix st) \<and> p = shown k st)"
      then show ?thesis by auto
    qed
  next
    case (Some a)
    with f IterNext.prems have "e = e1" "ret1 = Some p" by simp_all
    with f subtreeRowFn_sets [of d rv k r ret e1 p] show ?thesis by auto
  qed
qed simp_all

lemma Do_sorted_highest:
  assumes "\<forall>r\<in>set (iterRows it). decodes d k r"
    and "sorted_wrt (\<lambda>a b. storedRevision b \<le> storedRevision a) (iterRows it)"
    and "\<exists>r\<in>set (iterRows it). storedRevision r \<le> sint rv"
  shows "\<exists>r\<in>set (iterRows it). \<exists>rRev st. decoded d r = Some (rRev, st) \<and> sint rRev \<le> sint rv
           \<and> (\<forall>r'\<in>set (iterRows it). storedRevision r' \<le> sint rv \<longrightarrow> storedRevision r' \<le> sint rRev)
           \<and> Do it (subtreeRowFn d rv k) ret = (Some errFinished, Some (shown k st))"
  using assms
proof (induction it)
  case (IterNext r it)
  from IterNext.prems(1) obtain rRev st where
    dec: "decoded d r = Some (rRev, st)" and pre: "bytes_Equal k (Prefix st)"
    by (auto simp: decodes_def split: option.splits)
  from dec have sr: "storedRevision r = sint rRev"
    by (auto simp: storedRevision_def decoded_def split: sum.splits prod.splits)
  show ?case
  proof (cases "sint rv < sint rRev")
    case True
    have step: "subtreeRowFn d rv k r ret = (None, ret)"
      using dec True by (rule subtreeRowFn_too_new)
    from IterNext.prems True sr have
      "\<forall>r\<in>set (iterRows it). decodes d k r"
      "sorted_wrt (\<lambda>a b. storedRevision b \<le> storedRevision a) (iterRows it)"
      "\<exists>r\<in>set (iterRows it). storedRevision r \<le> sint rv"
      by auto
    from IterNext.IH [OF this] obtain r0 rRev0 st0 where
      r0: "r0 \<in> set (iterRows it)" "decoded d r0 = Some (rRev0, st0)" "sint rRev0 \<le> sint rv"
        "\<forall>r'\<in>set (iterRows it). storedRevision r' \<le> sint rv \<longrightarrow> storedRevision r' \<le> sint rRev0"
        "Do it (subtreeRowFn d rv k) ret = (Some errFinished, Some (shown k st0))"
      by blast
    have "\<forall>r'\<in>set (iterRows (IterNext r it)). storedRevision r' \<le> sint rv \<longrightarrow> storedRevision r' \<le> sint rRev0"
      using r0(4) True sr by auto
    moreover have "Do (IterNext r it) (subtreeRowFn d rv k) ret = (Some errFinished, Some (shown k st0))"
      using step r0(5) by simp
    ultimately show ?thesis using r0(1,2,3) by (intro bexI [of _ r0]) auto
  next
    case False
    have step: "subtreeRowFn d rv k r ret = (Some errFinished, Some (shown k st))"
      using dec False pre by (rule subtreeRowFn_match)
    have "\<forall>r'\<in>set (iterRows (IterNext r it)). storedRevision r' \<le> sint rRev"
      using IterNext.prems(2) sr by auto
    then show ?thesis using dec False step by (intro bexI [of _ r]) auto
  qed
qed simp_all


lemma getSubtree_open:
  "subtreeKey nid = Ret (k, None) \<Longrightarrow> stx t \<noteq> None \<Longrightarrow>
   getSubtree d t s rv nid =
     (case Do (Read s (treeID t, k)) (subtreeRowFn d rv k) None of
        (err, ret) \<Rightarrow> Ret (ret, if err = Some errFinished then None else err))"
  by (auto simp: getSubtree_def split: option.splits)

lemma getSubtree_Some:
  assumes "getSubtree d t s rv nid = Ret (Some p, e)"
  shows "e = None \<and> (\<exists>k. subtreeKey nid = Ret (k, None)
     \<and> (\<exists>r\<in>set (iterRows (Read s (treeID t, k))). \<exists>rRev st. decoded d r = Some (rRev, st)
           \<and> sint rRev \<le> sint rv \<and> p = shown k st))"
proof -
  from assms obtain k where k: "subtreeKey nid = Ret (k, None)" and op: "stx t \<noteq> None"
    by (auto simp: getSubtree_def split: outcome.splits option.splits prod.splits)
  obtain err ret where D: "Do (Read s (treeID t, k)) (subtreeRowFn d rv k) None = (err, ret)"
    by (cases "Do (Read s (treeID t, k)) (subtreeRowFn d rv k) None")
  from assms have "ret = Some p" and e: "e = (if err = Some errFinished then None else err)"
    unfolding getSubtree_open [OF k op] D by simp_all
  with D have "Do (Read s (treeID t, k)) (subtreeRowFn d rv k) None = (err, Some p)" by simp
  from Do_returns_stored [OF this] have
    "err = Some errFinished \<and> (\<exists>r\<in>set (iterRows (Read s (treeID t, k))). \<exists>rRev st.
        decoded d r = Some (rRev, st) \<and> sint rRev \<le> sint rv \<and> bytes_Equal k (Prefix st)
        \<and> p = shown k st)"
    by simp
  with e k show ?thesis by auto
qed

text \<open>
  C1. A subtree \<open>getSubtree\<close> returns always comes from a stored row of the key with
  revision at most the requested revision \<open>rv\<close>, never from a newer one, and comes with
  no error. The scan skips the rows that are too new and stops at the first row that is
  not, so it relies on the backend delivering the rows of a key newest revision first
  (the row function says "Too new, skip this row and wait for the next"). For a node id
  with a usable key, on an open transaction, when the rows of the key decode, carry the
  key as their prefix and arrive in descending order of revision, and one of them has a
  revision at most \<open>rv\<close>, the subtree returned is that of a row with the highest stored
  revision at most \<open>rv\<close>.
\<close>

theorem getSubtree_highest_when_descending:
  "(getSubtree d t s rv nid = Ret (Some p, e) \<longrightarrow>
      e = None \<and> (\<exists>k. subtreeKey nid = Ret (k, None)
        \<and> (\<exists>r\<in>set (iterRows (Read s (treeID t, k))). \<exists>rRev st. decoded d r = Some (rRev, st)
              \<and> sint rRev \<le> sint rv \<and> p = shown k st)))
   \<and> (subtreeKey nid = Ret (k, None) \<and> stx t \<noteq> None \<and> rows = iterRows (Read s (treeID t, k))
        \<and> (\<forall>r\<in>set rows. decodes d k r)
        \<and> sorted_wrt (\<lambda>a b. storedRevision b \<le> storedRevision a) rows
        \<and> (\<exists>r\<in>set rows. storedRevision r \<le> sint rv)
      \<longrightarrow> (\<exists>r\<in>set rows. \<exists>rRev st. decoded d r = Some (rRev, st) \<and> sint rRev \<le> sint rv
             \<and> (\<forall>r'\<in>set rows. storedRevision r' \<le> sint rv \<longrightarrow> storedRevision r' \<le> sint rRev)
             \<and> getSubtree d t s rv nid = Ret (Some (shown k st), None)))"
proof (rule conjI; rule impI)
  assume "getSubtree d t s rv nid = Ret (Some p, e)"
  then show "e = None \<and> (\<exists>k. subtreeKey nid = Ret (k, None)
        \<and> (\<exists>r\<in>set (iterRows (Read s (treeID t, k))). \<exists>rRev st. decoded d r = Some (rRev, st)
              \<and> sint rRev \<le> sint rv \<and> p = shown k st))"
    by (rule getSubtree_Some)
next
  assume h: "subtreeKey nid = Ret (k, None) \<and> stx t \<noteq> None \<and> rows = iterRows (Read s (treeID t, k))
        \<and> (\<forall>r\<in>set rows. decodes d k r)
        \<and> sorted_wrt (\<lambda>a b. storedRevision b \<le> storedRevision a) rows
        \<and> (\<exists>r\<in>set rows. storedRevision r \<le> sint rv)"
  then have k: "subtreeKey nid = Ret (k, None)" and op: "stx t \<noteq> None"
    and rows: "rows = iterRows (Read s (treeID t, k))" by simp_all
  from h rows have
    "\<forall>r\<in>set (iterRows (Read s (treeID t, k))). decodes d k r"
    "sorted_wrt (\<lambda>a b. storedRevision b \<le> storedRevision a) (iterRows (Read s (treeID t, k)))"
    "\<exists>r\<in>set (iterRows (Read s (treeID t, k))). storedRevision r \<le> sint rv"
    by simp_all
  from Do_sorted_highest [OF this, of None] obtain r rRev st where
    r: "r \<in> set rows" "decoded d r = Some (rRev, st)" "sint rRev \<le> sint rv"
       "\<forall>r'\<in>set rows. storedRevision r' \<le> sint rv \<longrightarrow> storedRevision r' \<le> sint rRev"
       "Do (Read s (treeID t, k)) (subtreeRowFn d rv k) None = (Some errFinished, Some (shown k st))"
    unfolding rows by blast
  have "getSubtree d t s rv nid = Ret (Some (shown k st), None)"
    unfolding getSubtree_open [OF k op] r(5) by simp
  with r(1-4) show "\<exists>r\<in>set rows. \<exists>rRev st. decoded d r = Some (rRev, st) \<and> sint rRev \<le> sint rv
             \<and> (\<forall>r'\<in>set rows. storedRevision r' \<le> sint rv \<longrightarrow> storedRevision r' \<le> sint rRev)
             \<and> getSubtree d t s rv nid = Ret (Some (shown k st), None)"
    by blast
qed

lemma subtreeKey_rootID: "subtreeKey rootID = Ret ([], None)"
  by (simp add: rootID_def subtreeKey_def slice_to_def cap_def)

text \<open>
  Rows stored at revisions 3, 5 and 9, delivered newest first: a read at revision 7
  returns the row at 5.
\<close>

theorem getSubtree_highest_when_descending_witness:
  "getSubtree demo (freshTX 1 ReadOnlyTransaction [])
     (backend [] (\<lambda>k. [Inr (9, [0, 9]), Inr (5, [0, 5]), Inr (3, [0, 3])])) 7 rootID
   = Ret (Some \<lparr>Prefix = Some [], Depth = 8, RootHash = [5], Leaves = [],
                InternalNodes = []\<rparr>, None)"
proof -
  let ?t = "freshTX 1 ReadOnlyTransaction ([] :: SubtreeProto list)"
  let ?rows = "[Inr (9, [0, 9]), Inr (5, [0, 5]), Inr (3, [0, 3])] :: SubtreeRow list"
  let ?s = "backend [] (\<lambda>k. ?rows)"
  have rd: "iterRows (Read ?s (1, [])) = ?rows" by (simp add: backend_def)
  have dec: "decoded demo (Inr (rv, [0, b])) = Some (rv, \<lparr>Prefix = None, Depth = 8,
      RootHash = [b], Leaves = [], InternalNodes = []\<rparr>)" for rv b
    by (simp add: decoded_def demo_def)
  have h: "subtreeKey rootID = Ret ([], None) \<and> stx ?t \<noteq> None
        \<and> ?rows = iterRows (Read ?s (treeID ?t, []))
        \<and> (\<forall>r\<in>set ?rows. decodes demo [] r)
        \<and> sorted_wrt (\<lambda>a b. storedRevision b \<le> storedRevision a) ?rows
        \<and> (\<exists>r\<in>set ?rows. storedRevision r \<le> sint (7 :: int64))"
    by (simp add: subtreeKey_rootID rd freshTX_def decodes_def dec bytes_Equal_def
        storedRevision_def)
  from getSubtree_highest_when_descending [of demo ?t ?s 7 rootID undefined undefined "[]" ?rows] h
  obtain r rRev st where
    r: "r \<in> set ?rows" "decoded demo r = Some (rRev, st)" "sint rRev \<le> sint (7 :: int64)"
       "\<forall>r'\<in>set ?rows. storedRevision r' \<le> sint (7 :: int64) \<longrightarrow> storedRevision r' \<le> sint rRev"
       "getSubtree demo ?t ?s 7 rootID = Ret (Some (shown [] st), None)"
    by blast
  from r(4) have five: "5 \<le> sint rRev" by (simp add: storedRevision_def)
  from r(1) have "r = Inr (9, [0, 9]) \<or> r = Inr (5, [0, 5]) \<or> r = Inr (3, [0, 3])" by simp
  then have "st = \<lparr>Prefix = None, Depth = 8, RootHash = [5], Leaves = [], InternalNodes = []\<rparr>"
    using r(2,3) five by (auto simp: dec)
  with r(5) show ?thesis by (simp add: shown_def)
qed

text \<open>
  C6. For a node id with a usable key and an open transaction: when the read of the key
  ends without error and every stored row of the key (if there is any) decodes and is
  newer than the requested revision, in particular when the subtree was never written,
  \<open>getSubtree\<close> returns nil and no error.
\<close>

theorem getSubtree_none_when_unwritten:
  "subtreeKey nid = Ret (k, None) \<and> stx t \<noteq> None
     \<and> iterEnd (Read s (treeID t, k)) = None
     \<and> (\<forall>r\<in>set (iterRows (Read s (treeID t, k))).
           \<exists>rRev st. decoded d r = Some (rRev, st) \<and> sint rv < sint rRev)
   \<longrightarrow> getSubtree d t s rv nid = Ret (None, None)"
proof
  assume h: "subtreeKey nid = Ret (k, None) \<and> stx t \<noteq> None
     \<and> iterEnd (Read s (treeID t, k)) = None
     \<and> (\<forall>r\<in>set (iterRows (Read s (treeID t, k))).
           \<exists>rRev st. decoded d r = Some (rRev, st) \<and> sint rv < sint rRev)"
  then have k: "subtreeKey nid = Ret (k, None)" and op: "stx t \<noteq> None"
    and fin: "iterEnd (Read s (treeID t, k)) = None" by simp_all
  from h have "\<forall>r\<in>set (iterRows (Read s (treeID t, k))).
      \<exists>rRev st. decoded d r = Some (rRev, st) \<and> sint rv < sint rRev" by simp
  then have "Do (Read s (treeID t, k)) (subtreeRowFn d rv k) None
      = (iterEnd (Read s (treeID t, k)), None)"
    by (rule Do_all_too_new)
  then show "getSubtree d t s rv nid = Ret (None, None)"
    unfolding getSubtree_open [OF k op] fin by simp
qed

theorem getSubtree_none_when_unwritten_witness:
  "getSubtree demo (freshTX 1 ReadOnlyTransaction []) (backend [] (\<lambda>k. [])) 7 rootID
     = Ret (None, None)
   \<and> getSubtree demo (freshTX 1 ReadOnlyTransaction [])
       (backend [] (\<lambda>k. [Inr (9, [0, 9]), Inr (8, [0, 8])])) 7 rootID
     = Ret (None, None)"
proof -
  let ?t = "freshTX 1 ReadOnlyTransaction ([] :: SubtreeProto list)"
  let ?rows = "[Inr (9, [0, 9]), Inr (8, [0, 8])] :: SubtreeRow list"
  have dec: "decoded demo (Inr (rv, [0, b])) = Some (rv, \<lparr>Prefix = None, Depth = 8,
      RootHash = [b], Leaves = [], InternalNodes = []\<rparr>)" for rv b
    by (simp add: decoded_def demo_def)
  have "getSubtree demo ?t (backend [] (\<lambda>k. [])) 7 rootID = Ret (None, None)"
    using getSubtree_none_when_unwritten [of rootID "[]" ?t "backend [] (\<lambda>k. [])" demo 7]
    by (simp add: subtreeKey_rootID freshTX_def backend_def)
  moreover have "getSubtree demo ?t (backend [] (\<lambda>k. ?rows)) 7 rootID = Ret (None, None)"
    using getSubtree_none_when_unwritten [of rootID "[]" ?t "backend [] (\<lambda>k. ?rows)" demo 7]
    by (simp add: subtreeKey_rootID freshTX_def backend_def dec)
  ultimately show ?thesis by blast
qed

subsection \<open>Node reads\<close>

lemma collect_first_error:
  "\<forall>m\<in>set pre. \<exists>st. m = OnC st \<Longrightarrow> collect (pre @ OnErrc e # post) ret = ([], Some e)"
proof (induction pre arbitrary: ret)
  case Nil
  then show ?case by simp
next
  case (Cons m pre)
  then obtain st where m: "m = OnC st" by auto
  from Cons have "collect (pre @ OnErrc e # post) r = ([], Some e)" for r by simp
  then show ?case using m by (cases st) simp_all
qed

lemma first_error_split:
  assumes "OnErrc e0 \<in> set ms"
  shows "\<exists>pre e post. ms = pre @ OnErrc e # post \<and> (\<forall>m\<in>set pre. \<exists>st. m = OnC st)"
proof -
  from assms have "\<exists>m\<in>set ms. \<exists>e. m = OnErrc e" by blast
  from split_list_first_prop [OF this] obtain pre m post where
    s: "ms = pre @ m # post" "\<exists>e. m = OnErrc e" "\<forall>y\<in>set pre. \<not> (\<exists>e. y = OnErrc e)"
    by blast
  from s(2) obtain e where e: "m = OnErrc e" by blast
  have "\<forall>y\<in>set pre. \<exists>st. y = OnC st"
  proof
    fix y assume "y \<in> set pre"
    with s(3) have "\<not> (\<exists>e. y = OnErrc e)" by blast
    then show "\<exists>st. y = OnC st" by (cases y) auto
  qed
  with s(1) e show ?thesis by blast
qed

lemma message_error: "message r = OnErrc e \<longleftrightarrow> snd r = Some e"
  by (cases r) (auto simp: message_def split: option.splits)

text \<open>
  C7. On an open transaction, let the cache hand the batch \<open>miss\<close> to the miss handler
  (\<open>fetchSubtrees\<close>), let no fetch of the batch panic and at least one fail. Then in
  whatever order the goroutines' messages arrive, the handler returns the first error
  it receives, which is the error of one of the failed fetches, and a nil list: the
  subtrees received before it and the results of the other fetches are dropped. With a
  cache whose \<open>GetNodes\<close> passes the handler's failure on, \<open>GetMerkleNodes\<close> returns that
  error and no nodes.
\<close>

theorem GetMerkleNodes_first_error:
  "(\<forall>ms. mset (arrival d ms) = mset ms) \<and> stx t \<noteq> None
     \<and> returned (map (getSubtree d t s rv) miss) = Ret rs
     \<and> (\<exists>r\<in>set rs. snd r \<noteq> None)
     \<and> (\<forall>e. fetchSubtrees d t s rv miss = Ret ([], Some e) \<longrightarrow>
           (\<exists>c'. GetNodes d (cache t) ids (fetchSubtrees d t s rv) = Ret (([], Some e), c')))
   \<longrightarrow> (\<exists>e pre post c'.
          arrival d (map message rs) = pre @ OnErrc e # post
          \<and> (\<forall>m\<in>set pre. \<exists>st. m = OnC st)
          \<and> (\<exists>st. (st, Some e) \<in> set rs)
          \<and> fetchSubtrees d t s rv miss = Ret ([], Some e)
          \<and> GetMerkleNodes d t s rv ids = Ret (([], Some e), t\<lparr>cache := c'\<rparr>))"
proof
  assume h: "(\<forall>ms. mset (arrival d ms) = mset ms) \<and> stx t \<noteq> None
     \<and> returned (map (getSubtree d t s rv) miss) = Ret rs
     \<and> (\<exists>r\<in>set rs. snd r \<noteq> None)
     \<and> (\<forall>e. fetchSubtrees d t s rv miss = Ret ([], Some e) \<longrightarrow>
           (\<exists>c'. GetNodes d (cache t) ids (fetchSubtrees d t s rv) = Ret (([], Some e), c')))"
  let ?obs = "arrival d (map message rs)"
  from h have "mset ?obs = mset (map message rs)" by blast
  then have same: "set ?obs = set (map message rs)" by (rule mset_eq_setD)
  from h obtain r e0 where "r \<in> set rs" "snd r = Some e0" by auto
  then have "OnErrc e0 \<in> set (map message rs)"
    using message_error [of r e0] by (metis image_eqI set_map)
  with same have "OnErrc e0 \<in> set ?obs" by simp
  from first_error_split [OF this] obtain pre e post where
    sp: "?obs = pre @ OnErrc e # post" "\<forall>m\<in>set pre. \<exists>st. m = OnC st" by blast
  from sp(1) have "OnErrc e \<in> set ?obs" by simp
  with same have "OnErrc e \<in> set (map message rs)" by simp
  then obtain r' where r': "r' \<in> set rs" "message r' = OnErrc e" by auto
  then have "snd r' = Some e" by (simp add: message_error)
  then have "r' = (fst r', Some e)" by (cases r') simp
  with r'(1) have "(fst r', Some e) \<in> set rs" by simp
  then have src: "\<exists>st. (st, Some e) \<in> set rs" by blast
  have "collect ?obs [] = ([], Some e)"
    unfolding sp(1) using sp(2) by (rule collect_first_error)
  with h have fetch: "fetchSubtrees d t s rv miss = Ret ([], Some e)"
    by (simp add: fetchSubtrees_def)
  with h obtain c' where
    "GetNodes d (cache t) ids (fetchSubtrees d t s rv) = Ret (([], Some e), c')" by blast
  with h have "GetMerkleNodes d t s rv ids = Ret (([], Some e), t\<lparr>cache := c'\<rparr>)"
    by (auto simp: GetMerkleNodes_def split: option.splits)
  with sp src fetch show "\<exists>e pre post c'.
          arrival d (map message rs) = pre @ OnErrc e # post
          \<and> (\<forall>m\<in>set pre. \<exists>st. m = OnC st)
          \<and> (\<exists>st. (st, Some e) \<in> set rs)
          \<and> fetchSubtrees d t s rv miss = Ret ([], Some e)
          \<and> GetMerkleNodes d t s rv ids = Ret (([], Some e), t\<lparr>cache := c'\<rparr>)"
    by blast
qed


text \<open>
  Three node ids in two subtrees, the read of the second failing, messages arriving in
  the reverse order of the fetches.
\<close>

theorem GetMerkleNodes_first_error_witness:
  "\<exists>c'. GetMerkleNodes (demo\<lparr>arrival := rev\<rparr>) (freshTX 1 ReadOnlyTransaction [])
          ((backend [] (\<lambda>k. []))
             \<lparr>Read := (\<lambda>(tid, k). if k = [2] then IterFail (ErrExternal ''unavailable'')
                                   else iterOf [Inr (3, [1, 1, 42])])\<rparr>)
          5
          [\<lparr>Path = \<lparr>elems = [1], spare = []\<rparr>, PrefixLenBits = 8\<rparr>,
           \<lparr>Path = \<lparr>elems = [2], spare = []\<rparr>, PrefixLenBits = 8\<rparr>,
           \<lparr>Path = \<lparr>elems = [1], spare = []\<rparr>, PrefixLenBits = 8\<rparr>]
        = Ret (([], Some (ErrExternal ''unavailable'')),
               (freshTX 1 ReadOnlyTransaction [])\<lparr>cache := c'\<rparr>)"
proof -
  let ?d = "demo\<lparr>arrival := rev\<rparr>"
  let ?t = "freshTX 1 ReadOnlyTransaction ([] :: SubtreeProto list)"
  let ?s = "(backend [] (\<lambda>k. []))
             \<lparr>Read := (\<lambda>(tid, k). if k = [2] then IterFail (ErrExternal ''unavailable'')
                                   else iterOf [Inr (3, [1, 1, 42])])\<rparr>"
  let ?k1 = "\<lparr>Path = \<lparr>elems = [1], spare = []\<rparr>, PrefixLenBits = 8\<rparr>"
  let ?k2 = "\<lparr>Path = \<lparr>elems = [2], spare = []\<rparr>, PrefixLenBits = 8\<rparr>"
  let ?st = "\<lparr>Prefix = Some [1], Depth = 8, RootHash = [42], Leaves = [], InternalNodes = []\<rparr>"
  let ?rs = "[(Some ?st, None), (None, Some (ErrExternal ''unavailable'')), (Some ?st, None)]"
  have key: "subtreeKey \<lparr>Path = \<lparr>elems = [b], spare = []\<rparr>, PrefixLenBits = 8\<rparr> = Ret ([b], None)"
    for b
    by (simp add: subtreeKey_def slice_to_def cap_def signed_modulo_int_def
        signed_divide_int_def)
  have g1: "getSubtree ?d ?t ?s 5 ?k1 = Ret (Some ?st, None)"
    by (simp add: getSubtree_def key freshTX_def subtreeRowFn_def demo_def bytes_Equal_def)
  have g2: "getSubtree ?d ?t ?s 5 ?k2 = Ret (None, Some (ErrExternal ''unavailable''))"
    by (simp add: getSubtree_def key freshTX_def)
  have rs: "returned (map (getSubtree ?d ?t ?s 5) [?k1, ?k2, ?k1]) = Ret ?rs"
    by (simp add: g1 g2)
  have perm: "\<forall>ms. mset (arrival ?d ms) = mset ms" by simp
  have op: "stx ?t \<noteq> None" by (simp add: freshTX_def)
  have bad: "\<exists>r\<in>set ?rs. snd r \<noteq> None" by simp
  have pass: "\<forall>e. fetchSubtrees ?d ?t ?s 5 [?k1, ?k2, ?k1] = Ret ([], Some e) \<longrightarrow>
      (\<exists>c'. GetNodes ?d (cache ?t) [?k1, ?k2, ?k1] (fetchSubtrees ?d ?t ?s 5)
         = Ret (([], Some e), c'))"
    by (simp add: demo_def demoGetNodes_def)
  from GetMerkleNodes_first_error [of ?d ?t ?s 5 "[?k1, ?k2, ?k1]" ?rs "[?k1, ?k2, ?k1]"]
    perm op rs bad pass
  obtain e c' where
    e: "\<exists>st. (st, Some e) \<in> set ?rs"
       "GetMerkleNodes ?d ?t ?s 5 [?k1, ?k2, ?k1] = Ret (([], Some e), ?t\<lparr>cache := c'\<rparr>)"
    by blast
  from e(1) have "e = ErrExternal ''unavailable''" by auto
  with e(2) show ?thesis by blast
qed

subsection \<open>Revision resolution\<close>

lemma latestSTH_cases:
  "latestSTH d s stxv tid = Ret (th, err) \<Longrightarrow>
   (err = None \<and> th \<noteq> None) \<or> (err \<noteq> None \<and> th = None)"
  by (auto simp: latestSTH_def split: option.splits prod.splits)

lemma getLatestRoot_success:
  assumes "\<not> getLatestRootOnce t" and "getLatestRoot d t s = (Ret None, t')"
  shows "\<exists>h. latestSTH d s (stx t) (treeID t) = Ret (Some h, None)
           \<and> fld_currentSTH t' = Some h \<and> fld_writeRev t' = TreeRevision h + 1
           \<and> fld_currentSTHErr t' = None \<and> getLatestRootOnce t'"
proof -
  from assms obtain th err where l: "latestSTH d s (stx t) (treeID t) = Ret (th, err)"
    by (auto simp: getLatestRoot_def split: outcome.splits)
  from latestSTH_cases [OF l] show ?thesis
    using assms l by (auto simp: getLatestRoot_def Let_def split: option.splits)
qed

lemma getLatestRoot_memo:
  "getLatestRootOnce t \<Longrightarrow> getLatestRoot d t s = (Ret (fld_currentSTHErr t), t)"
  by (simp add: getLatestRoot_def)

lemma latestSTH_no_head:
  "stxv \<noteq> None \<Longrightarrow> Query s tid = IterDone \<Longrightarrow>
   latestSTH d s stxv tid = Ret (None, Some ErrTreeNeedsInit)"
  by (auto simp: latestSTH_def split: option.splits)

lemma getLatestRoot_no_head:
  assumes "\<not> getLatestRootOnce t" "stx t \<noteq> None" "Query s (treeID t) = IterDone"
  shows "getLatestRoot d t s
     = (Ret (Some ErrTreeNeedsInit),
        t\<lparr>fld_currentSTH := None, fld_currentSTHErr := Some ErrTreeNeedsInit,
          getLatestRootOnce := True\<rparr>)"
  using assms by (simp add: getLatestRoot_def latestSTH_no_head)

text \<open>
  The panic path of the resolution. On a transaction whose scope is nil (closed) and
  whose tree head was never resolved, \<open>getLatestRoot\<close> panics at the query and the
  \<open>sync.Once\<close> is done; a caller that recovers and asks again gets no error, a nil tree
  head and the write revision the transaction was built with.
\<close>

lemma getLatestRoot_after_panic:
  assumes "\<not> getLatestRootOnce t" "stx t = None" "fld_currentSTHErr t = None"
  shows "getLatestRoot d t s = (Panic NilDereference, t\<lparr>getLatestRootOnce := True\<rparr>)"
    and "writeRev d (t\<lparr>getLatestRootOnce := True\<rparr>) s
           = (Ret (fld_writeRev t, None), t\<lparr>getLatestRootOnce := True\<rparr>)"
    and "currentSTH d (t\<lparr>getLatestRootOnce := True\<rparr>) s
           = (Ret (fld_currentSTH t, None), t\<lparr>getLatestRootOnce := True\<rparr>)"
  using assms by (simp_all add: getLatestRoot_def latestSTH_def writeRev_def currentSTH_def)

text \<open>
  C2, as the code has it. On a transaction whose tree head has not been resolved yet:
  if the resolution succeeds (\<open>getLatestRoot\<close> returns no error), \<open>latestSTH\<close> gave a tree
  head \<open>h\<close>, which is held, and the write revision is \<open>TreeRevision h + 1\<close> (\<open>int64\<close>
  addition); \<open>writeRev\<close> and \<open>WriteRevision\<close> return it, now and on every later call,
  and \<open>ReadRevision\<close> returns \<open>TreeRevision h\<close>. If the transaction is open and the tree
  has no tree head, the accessors with an error result, \<open>currentSTH\<close> and \<open>writeRev\<close>,
  return \<open>ErrTreeNeedsInit\<close> (with a nil head and the revision \<open>-1\<close>), while
  \<open>ReadRevision\<close> and \<open>WriteRevision\<close>, which have no error result, panic with that
  error; the outcome is memoized, so every later call ends the same way.
\<close>

theorem write_revision_resolution:
  "\<not> getLatestRootOnce t \<longrightarrow>
     (getLatestRoot d t s = (Ret None, t') \<longrightarrow>
        (\<exists>h. latestSTH d s (stx t) (treeID t) = Ret (Some h, None)
           \<and> fld_currentSTH t' = Some h \<and> fld_writeRev t' = TreeRevision h + 1
           \<and> writeRev d t s = (Ret (TreeRevision h + 1, None), t')
           \<and> WriteRevision d t s = (Ret (TreeRevision h + 1), t')
           \<and> ReadRevision d t s = (Ret (TreeRevision h), t')
           \<and> writeRev d t' s = (Ret (TreeRevision h + 1, None), t')
           \<and> WriteRevision d t' s = (Ret (TreeRevision h + 1), t')
           \<and> ReadRevision d t' s = (Ret (TreeRevision h), t')))
   \<and> (stx t \<noteq> None \<and> Query s (treeID t) = IterDone
        \<and> t1 = t\<lparr>fld_currentSTH := None, fld_currentSTHErr := Some ErrTreeNeedsInit,
                  getLatestRootOnce := True\<rparr> \<longrightarrow>
        currentSTH d t s = (Ret (None, Some ErrTreeNeedsInit), t1)
        \<and> writeRev d t s = (Ret (- 1, Some ErrTreeNeedsInit), t1)
        \<and> ReadRevision d t s = (Panic (PanicError ErrTreeNeedsInit), t1)
        \<and> WriteRevision d t s = (Panic (PanicError ErrTreeNeedsInit), t1)
        \<and> currentSTH d t1 s = (Ret (None, Some ErrTreeNeedsInit), t1)
        \<and> writeRev d t1 s = (Ret (- 1, Some ErrTreeNeedsInit), t1)
        \<and> ReadRevision d t1 s = (Panic (PanicError ErrTreeNeedsInit), t1)
        \<and> WriteRevision d t1 s = (Panic (PanicError ErrTreeNeedsInit), t1))"
proof (rule impI, rule conjI; rule impI)
  assume fresh: "\<not> getLatestRootOnce t" and ok: "getLatestRoot d t s = (Ret None, t')"
  from getLatestRoot_success [OF fresh ok] obtain h where
    h: "latestSTH d s (stx t) (treeID t) = Ret (Some h, None)"
       "fld_currentSTH t' = Some h" "fld_writeRev t' = TreeRevision h + 1"
       "fld_currentSTHErr t' = None" "getLatestRootOnce t'"
    by blast
  have memo: "getLatestRoot d t' s = (Ret None, t')"
    using h by (simp add: getLatestRoot_memo)
  show "\<exists>h. latestSTH d s (stx t) (treeID t) = Ret (Some h, None)
           \<and> fld_currentSTH t' = Some h \<and> fld_writeRev t' = TreeRevision h + 1
           \<and> writeRev d t s = (Ret (TreeRevision h + 1, None), t')
           \<and> WriteRevision d t s = (Ret (TreeRevision h + 1), t')
           \<and> ReadRevision d t s = (Ret (TreeRevision h), t')
           \<and> writeRev d t' s = (Ret (TreeRevision h + 1, None), t')
           \<and> WriteRevision d t' s = (Ret (TreeRevision h + 1), t')
           \<and> ReadRevision d t' s = (Ret (TreeRevision h), t')"
    using h ok memo
    by (intro exI [of _ h])
       (simp add: writeRev_def WriteRevision_def ReadRevision_def currentSTH_def)
next
  assume fresh: "\<not> getLatestRootOnce t"
    and a: "stx t \<noteq> None \<and> Query s (treeID t) = IterDone
        \<and> t1 = t\<lparr>fld_currentSTH := None, fld_currentSTHErr := Some ErrTreeNeedsInit,
                  getLatestRootOnce := True\<rparr>"
  have first: "getLatestRoot d t s = (Ret (Some ErrTreeNeedsInit), t1)"
    using fresh a by (simp add: getLatestRoot_no_head)
  have again: "getLatestRoot d t1 s = (Ret (Some ErrTreeNeedsInit), t1)"
    using a by (simp add: getLatestRoot_memo)
  show "currentSTH d t s = (Ret (None, Some ErrTreeNeedsInit), t1)
        \<and> writeRev d t s = (Ret (- 1, Some ErrTreeNeedsInit), t1)
        \<and> ReadRevision d t s = (Panic (PanicError ErrTreeNeedsInit), t1)
        \<and> WriteRevision d t s = (Panic (PanicError ErrTreeNeedsInit), t1)
        \<and> currentSTH d t1 s = (Ret (None, Some ErrTreeNeedsInit), t1)
        \<and> writeRev d t1 s = (Ret (- 1, Some ErrTreeNeedsInit), t1)
        \<and> ReadRevision d t1 s = (Panic (PanicError ErrTreeNeedsInit), t1)
        \<and> WriteRevision d t1 s = (Panic (PanicError ErrTreeNeedsInit), t1)"
    by (simp add: first again writeRev_def WriteRevision_def ReadRevision_def currentSTH_def)
qed

theorem write_revision_resolution_witness:
  "(\<exists>t'. WriteRevision demo (freshTX 7 ReadWriteTransaction [])
             (backend [headRow 7 4] (\<lambda>k. [])) = (Ret 5, t')
        \<and> ReadRevision demo (freshTX 7 ReadWriteTransaction [])
             (backend [headRow 7 4] (\<lambda>k. [])) = (Ret 4, t')
        \<and> fld_writeRev t' = 5)
   \<and> (\<exists>t1. writeRev demo (freshTX 7 ReadWriteTransaction []) (backend [] (\<lambda>k. []))
           = (Ret (- 1, Some ErrTreeNeedsInit), t1)
        \<and> writeRev demo t1 (backend [] (\<lambda>k. [])) = (Ret (- 1, Some ErrTreeNeedsInit), t1)
        \<and> currentSTH demo (freshTX 7 ReadWriteTransaction []) (backend [] (\<lambda>k. []))
           = (Ret (None, Some ErrTreeNeedsInit), t1)
        \<and> ReadRevision demo (freshTX 7 ReadWriteTransaction []) (backend [] (\<lambda>k. []))
           = (Panic (PanicError ErrTreeNeedsInit), t1)
        \<and> WriteRevision demo t1 (backend [] (\<lambda>k. []))
           = (Panic (PanicError ErrTreeNeedsInit), t1))"
proof -
  let ?t = "freshTX 7 ReadWriteTransaction ([] :: SubtreeProto list)"
  let ?s = "backend [headRow 7 4] (\<lambda>k. [])"
  let ?e = "backend [] (\<lambda>k. [])"
  let ?h = "\<lparr>TreeId = 7, TsNanos = 1000, TreeSize = 0, HeadRootHash = [],
             Signature = DigitallySigned [], TreeRevision = 4, Metadata = Any []\<rparr>"
  let ?t' = "?t\<lparr>fld_currentSTH := Some ?h, fld_currentSTHErr := None,
               getLatestRootOnce := True, fld_writeRev := 5\<rparr>"
  let ?t1 = "?t\<lparr>fld_currentSTH := None, fld_currentSTHErr := Some ErrTreeNeedsInit,
               getLatestRootOnce := True\<rparr>"
  have fresh: "\<not> getLatestRootOnce ?t" by (simp add: freshTX_def)
  have run: "getLatestRoot demo ?t ?s = (Ret None, ?t')"
    by (simp add: getLatestRoot_def latestSTH_def headRowFn_def headRow_def backend_def
        demo_def freshTX_def)
  have sth: "fld_currentSTH ?t' = Some ?h" by simp
  have hyp: "stx ?t \<noteq> None \<and> Query ?e (treeID ?t) = IterDone \<and> ?t1 = ?t1"
    by (simp add: freshTX_def backend_def)
  from write_revision_resolution [of ?t demo ?s ?t' ?t1] fresh run sth
  have one: "WriteRevision demo ?t ?s = (Ret 5, ?t')
      \<and> ReadRevision demo ?t ?s = (Ret 4, ?t') \<and> fld_writeRev ?t' = 5"
    by auto
  from write_revision_resolution [of ?t demo ?e ?t' ?t1] fresh hyp
  have two: "writeRev demo ?t ?e = (Ret (- 1, Some ErrTreeNeedsInit), ?t1)
      \<and> writeRev demo ?t1 ?e = (Ret (- 1, Some ErrTreeNeedsInit), ?t1)
      \<and> currentSTH demo ?t ?e = (Ret (None, Some ErrTreeNeedsInit), ?t1)
      \<and> ReadRevision demo ?t ?e = (Panic (PanicError ErrTreeNeedsInit), ?t1)
      \<and> WriteRevision demo ?t1 ?e = (Panic (PanicError ErrTreeNeedsInit), ?t1)"
    by blast
  from one two show ?thesis by blast
qed

text \<open>
  C2 as stated has \<open>ReadRevision\<close> and \<open>WriteRevision\<close> hand the condition to the caller
  as an error. On an open transaction over a tree with no tree head both panic.
\<close>

theorem write_revision_resolution_counterexample:
  "ReadRevision demo (freshTX 7 ReadWriteTransaction []) (backend [] (\<lambda>k. []))
     = (Panic (PanicError ErrTreeNeedsInit),
        \<lparr>treeID = 7, stx = Some ReadWriteTransaction, fld_currentSTH = None,
         fld_currentSTHErr = Some ErrTreeNeedsInit, fld_writeRev = 0, cache = [],
         getLatestRootOnce = True\<rparr>)
   \<and> WriteRevision demo (freshTX 7 ReadWriteTransaction []) (backend [] (\<lambda>k. []))
     = (Panic (PanicError ErrTreeNeedsInit),
        \<lparr>treeID = 7, stx = Some ReadWriteTransaction, fld_currentSTH = None,
         fld_currentSTHErr = Some ErrTreeNeedsInit, fld_writeRev = 0, cache = [],
         getLatestRootOnce = True\<rparr>)"
  by (simp add: ReadRevision_def WriteRevision_def currentSTH_def writeRev_def
      getLatestRoot_def latestSTH_def backend_def freshTX_def)

subsection \<open>Node writes\<close>

lemma demo_simps:
  "UnmarshalSubtree demo = demoUnmarshal" "MarshalSubtree demo = demoMarshal"
  "GetNodes demo = demoGetNodes" "SetNodeHash demo = demoSetNodeHash"
  "Flush demo = demoFlush" "arrival demo = (\<lambda>ms. ms)"
  by (simp_all add: demo_def)

lemma freshTX_simps:
  "treeID (freshTX tid ty c) = tid" "stx (freshTX tid ty c) = Some ty"
  "cache (freshTX tid ty c) = c" "getLatestRootOnce (freshTX tid ty c) = False"
  "fld_writeRev (freshTX tid ty c) = 0"
  by (simp_all add: freshTX_def)

lemma getLatestRoot_frame:
  "getLatestRoot d t s = (res, t1) \<Longrightarrow>
   stx t1 = stx t \<and> treeID t1 = treeID t \<and> cache t1 = cache t"
  by (auto simp: getLatestRoot_def Let_def split: if_splits outcome.splits option.splits)

lemma writeRev_frame:
  "writeRev d t s = (res, t1) \<Longrightarrow>
   stx t1 = stx t \<and> treeID t1 = treeID t \<and> cache t1 = cache t"
  by (auto simp: writeRev_def split: outcome.splits option.splits prod.splits
      dest: getLatestRoot_frame)

lemma writeRev_value:
  "writeRev d t s = (Ret (w, None), t1) \<Longrightarrow>
   getLatestRoot d t s = (Ret None, t1) \<and> w = fld_writeRev t1"
  by (auto simp: writeRev_def split: outcome.splits option.splits prod.splits)

lemma SetMerkleNodes_resolved:
  "stx t \<noteq> None \<Longrightarrow> writeRev d t s = (Ret (w, None), t1) \<Longrightarrow>
   SetMerkleNodes d t s nodes =
     (case setNodeHashes d (getSubtree d t1 s (w - 1)) nodes (cache t1) of
        (res, c') \<Rightarrow> (res, t1\<lparr>cache := c'\<rparr>))"
  by (auto simp: SetMerkleNodes_def split: option.splits)

lemma setNodeHashes_accepted:
  "\<forall>c. \<forall>n\<in>set nodes. fst (SetNodeHash d c (NodeID n) (Hash n) L) = Ret None \<Longrightarrow>
   setNodeHashes d L nodes c
     = (Ret None, foldl (\<lambda>c n. snd (SetNodeHash d c (NodeID n) (Hash n) L)) c nodes)"
proof (induction nodes arbitrary: c)
  case Nil
  then show ?case by simp
next
  case (Cons n nodes)
  from Cons.prems have "fst (SetNodeHash d c (NodeID n) (Hash n) L) = Ret None" by simp
  then obtain c1 where step: "SetNodeHash d c (NodeID n) (Hash n) L = (Ret None, c1)"
    by (cases "SetNodeHash d c (NodeID n) (Hash n) L") simp
  from Cons.prems have "\<forall>c. \<forall>n\<in>set nodes. fst (SetNodeHash d c (NodeID n) (Hash n) L) = Ret None"
    by simp
  from Cons.IH [OF this, of c1] show ?case by (simp add: step)
qed


lemma word_pred_neq: "(w :: int64) - 1 \<noteq> w"
  by simp

text \<open>
  C8. On an open transaction whose write revision resolves to \<open>w\<close>, with any cache that
  accepts the nodes: \<open>SetMerkleNodes\<close> offers every node of the list to the cache, in
  order, each with its id and hash and each with the same loader, \<open>getSubtree\<close> at
  revision \<open>w - 1\<close>, and returns nil with the cache state these calls leave. The
  revision of the loader is never \<open>w\<close>; when the resolution ran in this call it is the
  revision of the tree head \<open>latestSTH\<close> returned; and a subtree the loader returns comes
  from a stored row with revision at most \<open>w - 1\<close>.
\<close>

theorem SetMerkleNodes_loader_revision:
  "stx t \<noteq> None \<and> writeRev d t s = (Ret (w, None), t1)
     \<and> (\<forall>c. \<forall>n\<in>set nodes.
           fst (SetNodeHash d c (NodeID n) (Hash n) (getSubtree d t1 s (w - 1))) = Ret None)
   \<longrightarrow> SetMerkleNodes d t s nodes
         = (Ret None,
            t1\<lparr>cache := foldl (\<lambda>c n. snd (SetNodeHash d c (NodeID n) (Hash n)
                                           (getSubtree d t1 s (w - 1))))
                           (cache t1) nodes\<rparr>)
     \<and> w - 1 \<noteq> w
     \<and> (\<not> getLatestRootOnce t \<longrightarrow>
           (\<exists>h. latestSTH d s (stx t) (treeID t) = Ret (Some h, None)
              \<and> w = TreeRevision h + 1 \<and> w - 1 = TreeRevision h))
     \<and> (\<forall>nID p e. getSubtree d t1 s (w - 1) nID = Ret (Some p, e) \<longrightarrow>
           (\<exists>k. subtreeKey nID = Ret (k, None)
              \<and> (\<exists>r\<in>set (iterRows (Read s (treeID t, k))). \<exists>rRev st.
                    decoded d r = Some (rRev, st) \<and> sint rRev \<le> sint (w - 1)
                    \<and> p = shown k st)))"
proof
  assume h: "stx t \<noteq> None \<and> writeRev d t s = (Ret (w, None), t1)
     \<and> (\<forall>c. \<forall>n\<in>set nodes.
           fst (SetNodeHash d c (NodeID n) (Hash n) (getSubtree d t1 s (w - 1))) = Ret None)"
  let ?L = "getSubtree d t1 s (w - 1)"
  from h have op: "stx t \<noteq> None" and wr: "writeRev d t s = (Ret (w, None), t1)"
    and acc: "\<forall>c. \<forall>n\<in>set nodes. fst (SetNodeHash d c (NodeID n) (Hash n) ?L) = Ret None"
    by simp_all
  from writeRev_frame [OF wr] have fr: "treeID t1 = treeID t" by simp
  have one: "SetMerkleNodes d t s nodes
         = (Ret None,
            t1\<lparr>cache := foldl (\<lambda>c n. snd (SetNodeHash d c (NodeID n) (Hash n) ?L))
                           (cache t1) nodes\<rparr>)"
    by (simp add: SetMerkleNodes_resolved [OF op wr] setNodeHashes_accepted [OF acc])
  have two: "w - 1 \<noteq> w" by (rule word_pred_neq)
  have three: "\<exists>h. latestSTH d s (stx t) (treeID t) = Ret (Some h, None)
              \<and> w = TreeRevision h + 1 \<and> w - 1 = TreeRevision h"
    if fresh: "\<not> getLatestRootOnce t"
  proof -
    from writeRev_value [OF wr] have g: "getLatestRoot d t s = (Ret None, t1)"
      and w: "w = fld_writeRev t1" by simp_all
    from getLatestRoot_success [OF fresh g] w show ?thesis by auto
  qed
  have four: "\<exists>k. subtreeKey nID = Ret (k, None)
              \<and> (\<exists>r\<in>set (iterRows (Read s (treeID t, k))). \<exists>rRev st.
                    decoded d r = Some (rRev, st) \<and> sint rRev \<le> sint (w - 1)
                    \<and> p = shown k st)"
    if g: "?L nID = Ret (Some p, e)" for nID p e
    using getSubtree_Some [OF g] unfolding fr by blast
  from one two three four show "SetMerkleNodes d t s nodes
         = (Ret None,
            t1\<lparr>cache := foldl (\<lambda>c n. snd (SetNodeHash d c (NodeID n) (Hash n)
                                           (getSubtree d t1 s (w - 1))))
                           (cache t1) nodes\<rparr>)
     \<and> w - 1 \<noteq> w
     \<and> (\<not> getLatestRootOnce t \<longrightarrow>
           (\<exists>h. latestSTH d s (stx t) (treeID t) = Ret (Some h, None)
              \<and> w = TreeRevision h + 1 \<and> w - 1 = TreeRevision h))
     \<and> (\<forall>nID p e. getSubtree d t1 s (w - 1) nID = Ret (Some p, e) \<longrightarrow>
           (\<exists>k. subtreeKey nID = Ret (k, None)
              \<and> (\<exists>r\<in>set (iterRows (Read s (treeID t, k))). \<exists>rRev st.
                    decoded d r = Some (rRev, st) \<and> sint rRev \<le> sint (w - 1)
                    \<and> p = shown k st)))"
    by blast
qed


text \<open>
  Tree head at revision 4, so the write revision is 5. Three nodes: for the first two,
  whose subtrees have rows at revisions 5 and 4 (and 3), the loader returns the row at
  4; for the third, whose subtree was never written, nil.
\<close>

theorem SetMerkleNodes_loader_revision_witness:
  "\<exists>t'. SetMerkleNodes recording (freshTX 1 ReadWriteTransaction [])
          (backend [headRow 1 4]
             (\<lambda>k. if k = [] then [Inr (5, [0, 55]), Inr (4, [0, 44]), Inr (3, [0, 33])]
                  else if k = [1] then [Inr (5, [1, 1, 15]), Inr (4, [1, 1, 14])] else []))
          [\<lparr>NodeID = rootID, Hash = [7], NodeRevision = 0\<rparr>,
           \<lparr>NodeID = \<lparr>Path = \<lparr>elems = [1], spare = []\<rparr>, PrefixLenBits = 8\<rparr>, Hash = [8],
             NodeRevision = 0\<rparr>,
           \<lparr>NodeID = \<lparr>Path = \<lparr>elems = [2], spare = []\<rparr>, PrefixLenBits = 8\<rparr>, Hash = [9],
             NodeRevision = 0\<rparr>]
        = (Ret None, t')
      \<and> fld_writeRev t' = 5
      \<and> cache t' =
          [Ret (Some \<lparr>Prefix = Some [], Depth = 8, RootHash = [44], Leaves = [],
                      InternalNodes = []\<rparr>, None),
           Ret (Some \<lparr>Prefix = Some [1], Depth = 8, RootHash = [14], Leaves = [],
                      InternalNodes = []\<rparr>, None),
           Ret (None, None)]"
proof -
  let ?t = "freshTX 1 ReadWriteTransaction ([] :: (SubtreeProto option \<times> error option) outcome list)"
  let ?s = "backend [headRow 1 4]
             (\<lambda>k. if k = [] then [Inr (5, [0, 55]), Inr (4, [0, 44]), Inr (3, [0, 33])]
                  else if k = [1] then [Inr (5, [1, 1, 15]), Inr (4, [1, 1, 14])] else [])"
  let ?h = "\<lparr>TreeId = 1, TsNanos = 1000, TreeSize = 0, HeadRootHash = [],
             Signature = DigitallySigned [], TreeRevision = 4, Metadata = Any []\<rparr>"
  let ?t1 = "?t\<lparr>fld_currentSTH := Some ?h, fld_currentSTHErr := None,
               getLatestRootOnce := True, fld_writeRev := 5\<rparr>"
  let ?n0 = "\<lparr>NodeID = rootID, Hash = [7], NodeRevision = 0\<rparr>"
  let ?n1 = "\<lparr>NodeID = \<lparr>Path = \<lparr>elems = [1], spare = []\<rparr>, PrefixLenBits = 8\<rparr>, Hash = [8],
             NodeRevision = 0\<rparr>"
  let ?n2 = "\<lparr>NodeID = \<lparr>Path = \<lparr>elems = [2], spare = []\<rparr>, PrefixLenBits = 8\<rparr>, Hash = [9],
             NodeRevision = 0\<rparr>"
  have op: "stx ?t \<noteq> None" by (simp add: freshTX_def)
  have wr: "writeRev recording ?t ?s = (Ret (5, None), ?t1)"
    by (simp add: writeRev_def getLatestRoot_def latestSTH_def headRowFn_def headRow_def
        backend_def recording_def freshTX_def)
  have key: "subtreeKey \<lparr>Path = \<lparr>elems = [b], spare = []\<rparr>, PrefixLenBits = 8\<rparr> = Ret ([b], None)"
    for b
    by (simp add: subtreeKey_def slice_to_def cap_def signed_modulo_int_def
        signed_divide_int_def)
  have l0: "getSubtree recording ?t1 ?s 4 rootID
      = Ret (Some \<lparr>Prefix = Some [], Depth = 8, RootHash = [44], Leaves = [],
                   InternalNodes = []\<rparr>, None)"
    by (simp add: getSubtree_def subtreeKey_rootID freshTX_def backend_def subtreeRowFn_def
        recording_def bytes_Equal_def)
  have l1: "getSubtree recording ?t1 ?s 4 \<lparr>Path = \<lparr>elems = [1], spare = []\<rparr>, PrefixLenBits = 8\<rparr>
      = Ret (Some \<lparr>Prefix = Some [1], Depth = 8, RootHash = [14], Leaves = [],
                   InternalNodes = []\<rparr>, None)"
    by (simp add: getSubtree_def key freshTX_def backend_def subtreeRowFn_def
        recording_def bytes_Equal_def)
  have l2: "getSubtree recording ?t1 ?s 4 \<lparr>Path = \<lparr>elems = [2], spare = []\<rparr>, PrefixLenBits = 8\<rparr>
      = Ret (None, None)"
    by (simp add: getSubtree_def key freshTX_def backend_def)
  have sel: "SetNodeHash recording = (\<lambda>c nid h loader. (Ret None, c @ [loader nid]))"
    by (simp add: recording_def)
  have acc: "\<forall>c. \<forall>n\<in>set [?n0, ?n1, ?n2].
      fst (SetNodeHash recording c (NodeID n) (Hash n) (getSubtree recording ?t1 ?s (5 - 1)))
        = Ret None"
    by (simp add: sel)
  from SetMerkleNodes_loader_revision [of ?t recording ?s 5 ?t1 "[?n0, ?n1, ?n2]"] op wr acc
  have "SetMerkleNodes recording ?t ?s [?n0, ?n1, ?n2]
      = (Ret None,
         ?t1\<lparr>cache := foldl (\<lambda>c n. snd (SetNodeHash recording c (NodeID n) (Hash n)
                                          (getSubtree recording ?t1 ?s (5 - 1))))
                          (cache ?t1) [?n0, ?n1, ?n2]\<rparr>)"
    by blast
  then show ?thesis by (simp add: sel l0 l1 l2 freshTX_simps)
qed

lemma setNodeHashes_append:
  "setNodeHashes d L pre c = (Ret None, c1) \<Longrightarrow>
   setNodeHashes d L (pre @ rest) c = setNodeHashes d L rest c1"
proof (induction pre arbitrary: c)
  case Nil
  then show ?case by simp
next
  case (Cons n pre)
  then show ?case
    by (auto split: outcome.splits option.splits prod.splits)
qed

lemma storeLoop_all:
  assumes "\<forall>st. Some st \<in> set sts \<longrightarrow> (\<exists>b. MarshalSubtree d st = Inr b)"
    and "\<forall>ms. BufferWriteErr s ms = None"
  shows "storeLoop d t sts s
     = (None, s\<lparr>buffered := buffered s
                  @ map (\<lambda>st. Insert (treeID t) (Prefix st) (fld_writeRev t)
                                 (projr (MarshalSubtree d st)))
                        (map the (filter (\<lambda>x. x \<noteq> None) sts))\<rparr>)"
  using assms
proof (induction sts arbitrary: s)
  case Nil
  then show ?case by simp
next
  case (Cons x sts)
  show ?case
  proof (cases x)
    case None
    with Cons show ?thesis by simp
  next
    case (Some st)
    with Cons.prems obtain b where b: "MarshalSubtree d st = Inr b" by auto
    let ?m = "Insert (treeID t) (Prefix st) (fld_writeRev t) b"
    let ?s1 = "s\<lparr>buffered := buffered s @ [?m]\<rparr>"
    have bw: "BufferWrite s [?m] = (None, ?s1)"
      using Cons.prems(2) by (simp add: BufferWrite_def)
    have "\<forall>ms. BufferWriteErr ?s1 ms = None" using Cons.prems(2) by simp
    with Cons.prems(1) have "storeLoop d t sts ?s1
      = (None, ?s1\<lparr>buffered := buffered ?s1
                  @ map (\<lambda>st. Insert (treeID t) (Prefix st) (fld_writeRev t)
                                 (projr (MarshalSubtree d st)))
                        (map the (filter (\<lambda>x. x \<noteq> None) sts))\<rparr>)"
      by (intro Cons.IH) auto
    then show ?thesis using Some b bw by simp
  qed
qed

lemma Commit_read_write:
  "stx t = Some ReadWriteTransaction \<Longrightarrow>
   Commit d t s =
     (case Flush d (cache t) (storeSubtrees d t) s of
        (err, c', s') \<Rightarrow> (err, t\<lparr>cache := c', stx := None\<rparr>, s'))"
  by (simp add: Commit_def flushSubtrees_def split: prod.splits)

text \<open>
  C10. On an open read-write transaction whose write revision resolves to \<open>w\<close>: let
  the cache accept the nodes \<open>pre\<close>, reaching the state \<open>c1\<close>, and fail on the node \<open>n\<close>
  with the error \<open>e\<close>, leaving the state \<open>c2\<close>. Then \<open>SetMerkleNodes\<close> on
  \<open>pre @ n # post\<close> returns \<open>e\<close> at once (the nodes \<open>post\<close> are never offered) and keeps
  the cache in the state \<open>c2\<close>: what the cache recorded for \<open>pre\<close> is not undone. A later
  \<open>Commit\<close> flushes that state: with a cache that hands the subtrees it holds to the
  writer, every one of them that is not nil is buffered as a row of the tree at
  revision \<open>w\<close>, in order, and when they marshal and the backend takes the writes
  \<open>Commit\<close> returns nil.
\<close>

theorem SetMerkleNodes_not_atomic:
  "stx t = Some ReadWriteTransaction \<and> writeRev d t s = (Ret (w, None), t1)
     \<and> (\<forall>c. \<forall>m\<in>set pre.
           fst (SetNodeHash d c (NodeID m) (Hash m) (getSubtree d t1 s (w - 1))) = Ret None)
     \<and> c1 = foldl (\<lambda>c m. snd (SetNodeHash d c (NodeID m) (Hash m) (getSubtree d t1 s (w - 1))))
                  (cache t1) pre
     \<and> SetNodeHash d c1 (NodeID n) (Hash n) (getSubtree d t1 s (w - 1)) = (Ret (Some e), c2)
     \<and> (\<forall>writer s0. Flush d c2 writer s0
           = (case writer (held c2) s0 of (err, s') \<Rightarrow> (err, c3, s')))
     \<and> (\<forall>st. Some st \<in> set (held c2) \<longrightarrow> (\<exists>b. MarshalSubtree d st = Inr b))
     \<and> (\<forall>ms. BufferWriteErr s ms = None)
   \<longrightarrow> SetMerkleNodes d t s (pre @ n # post) = (Ret (Some e), t1\<lparr>cache := c2\<rparr>)
     \<and> Commit d (t1\<lparr>cache := c2\<rparr>) s
         = (None, t1\<lparr>cache := c3, stx := None\<rparr>,
            s\<lparr>buffered := buffered s
                 @ map (\<lambda>st. Insert (treeID t) (Prefix st) w (projr (MarshalSubtree d st)))
                       (map the (filter (\<lambda>x. x \<noteq> None) (held c2)))\<rparr>)"
proof
  assume h: "stx t = Some ReadWriteTransaction \<and> writeRev d t s = (Ret (w, None), t1)
     \<and> (\<forall>c. \<forall>m\<in>set pre.
           fst (SetNodeHash d c (NodeID m) (Hash m) (getSubtree d t1 s (w - 1))) = Ret None)
     \<and> c1 = foldl (\<lambda>c m. snd (SetNodeHash d c (NodeID m) (Hash m) (getSubtree d t1 s (w - 1))))
                  (cache t1) pre
     \<and> SetNodeHash d c1 (NodeID n) (Hash n) (getSubtree d t1 s (w - 1)) = (Ret (Some e), c2)
     \<and> (\<forall>writer s0. Flush d c2 writer s0
           = (case writer (held c2) s0 of (err, s') \<Rightarrow> (err, c3, s')))
     \<and> (\<forall>st. Some st \<in> set (held c2) \<longrightarrow> (\<exists>b. MarshalSubtree d st = Inr b))
     \<and> (\<forall>ms. BufferWriteErr s ms = None)"
  let ?L = "getSubtree d t1 s (w - 1)"
  let ?t2 = "t1\<lparr>cache := c2\<rparr>"
  from h have rw: "stx t = Some ReadWriteTransaction"
    and wr: "writeRev d t s = (Ret (w, None), t1)"
    and acc: "\<forall>c. \<forall>m\<in>set pre. fst (SetNodeHash d c (NodeID m) (Hash m) ?L) = Ret None"
    and c1: "c1 = foldl (\<lambda>c m. snd (SetNodeHash d c (NodeID m) (Hash m) ?L)) (cache t1) pre"
    and bad: "SetNodeHash d c1 (NodeID n) (Hash n) ?L = (Ret (Some e), c2)"
    and fl: "\<forall>writer s0. Flush d c2 writer s0
           = (case writer (held c2) s0 of (err, s') \<Rightarrow> (err, c3, s'))"
    and ms: "\<forall>st. Some st \<in> set (held c2) \<longrightarrow> (\<exists>b. MarshalSubtree d st = Inr b)"
    and bw: "\<forall>ms. BufferWriteErr s ms = None"
    by blast+
  from rw have op: "stx t \<noteq> None" by simp
  have "setNodeHashes d ?L pre (cache t1) = (Ret None, c1)"
    unfolding c1 using acc by (rule setNodeHashes_accepted)
  then have "setNodeHashes d ?L (pre @ n # post) (cache t1) = setNodeHashes d ?L (n # post) c1"
    by (rule setNodeHashes_append)
  also have "\<dots> = (Ret (Some e), c2)" using bad by simp
  finally have one: "SetMerkleNodes d t s (pre @ n # post) = (Ret (Some e), ?t2)"
    by (simp add: SetMerkleNodes_resolved [OF op wr])
  from writeRev_frame [OF wr] rw have st2: "stx ?t2 = Some ReadWriteTransaction"
    and tid: "treeID ?t2 = treeID t" by simp_all
  from writeRev_value [OF wr] have w: "fld_writeRev ?t2 = w" by simp
  have "storeSubtrees d ?t2 (held c2) s = storeLoop d ?t2 (held c2) s"
    using st2 by (simp add: storeSubtrees_def)
  also have "\<dots> = (None, s\<lparr>buffered := buffered s
                  @ map (\<lambda>st. Insert (treeID ?t2) (Prefix st) (fld_writeRev ?t2)
                                 (projr (MarshalSubtree d st)))
                        (map the (filter (\<lambda>x. x \<noteq> None) (held c2)))\<rparr>)"
    using ms bw by (rule storeLoop_all)
  finally have wrt: "storeSubtrees d ?t2 (held c2) s
      = (None, s\<lparr>buffered := buffered s
                  @ map (\<lambda>st. Insert (treeID t) (Prefix st) w (projr (MarshalSubtree d st)))
                        (map the (filter (\<lambda>x. x \<noteq> None) (held c2)))\<rparr>)"
    unfolding tid w .
  have two: "Commit d ?t2 s
         = (None, t1\<lparr>cache := c3, stx := None\<rparr>,
            s\<lparr>buffered := buffered s
                 @ map (\<lambda>st. Insert (treeID t) (Prefix st) w (projr (MarshalSubtree d st)))
                       (map the (filter (\<lambda>x. x \<noteq> None) (held c2)))\<rparr>)"
    unfolding Commit_read_write [OF st2] using fl wrt by simp
  from one two show "SetMerkleNodes d t s (pre @ n # post) = (Ret (Some e), t1\<lparr>cache := c2\<rparr>)
     \<and> Commit d (t1\<lparr>cache := c2\<rparr>) s
         = (None, t1\<lparr>cache := c3, stx := None\<rparr>,
            s\<lparr>buffered := buffered s
                 @ map (\<lambda>st. Insert (treeID t) (Prefix st) w (projr (MarshalSubtree d st)))
                       (map the (filter (\<lambda>x. x \<noteq> None) (held c2)))\<rparr>)"
    by blast
qed


text \<open>
  Four nodes, the third with a prefix length of 3 bits, which the loader rejects: the
  call returns the alignment error, and the following Commit returns nil and writes the
  subtrees of the first two nodes at the write revision 5, and nothing for the fourth.
\<close>

theorem SetMerkleNodes_not_atomic_witness:
  "\<exists>t' t'' s'.
     SetMerkleNodes demo (freshTX 1 ReadWriteTransaction []) (backend [headRow 1 4] (\<lambda>k. []))
       [\<lparr>NodeID = \<lparr>Path = \<lparr>elems = [1], spare = []\<rparr>, PrefixLenBits = 8\<rparr>, Hash = [7],
          NodeRevision = 0\<rparr>,
        \<lparr>NodeID = \<lparr>Path = \<lparr>elems = [3], spare = []\<rparr>, PrefixLenBits = 8\<rparr>, Hash = [9],
          NodeRevision = 0\<rparr>,
        \<lparr>NodeID = \<lparr>Path = \<lparr>elems = [2], spare = []\<rparr>, PrefixLenBits = 3\<rparr>, Hash = [8],
          NodeRevision = 0\<rparr>,
        \<lparr>NodeID = \<lparr>Path = \<lparr>elems = [4], spare = []\<rparr>, PrefixLenBits = 8\<rparr>, Hash = [6],
          NodeRevision = 0\<rparr>]
       = (Ret (Some (ErrNotMultipleOf8 3)), t')
     \<and> Commit demo t' (backend [headRow 1 4] (\<lambda>k. [])) = (None, t'', s')
     \<and> buffered s' = [Insert 1 (Some [1]) 5 [1, 1, 7], Insert 1 (Some [3]) 5 [1, 3, 9]]"
proof -
  let ?t = "freshTX 1 ReadWriteTransaction ([] :: SubtreeProto list)"
  let ?s = "backend [headRow 1 4] (\<lambda>k. [])"
  let ?h = "\<lparr>TreeId = 1, TsNanos = 1000, TreeSize = 0, HeadRootHash = [],
             Signature = DigitallySigned [], TreeRevision = 4, Metadata = Any []\<rparr>"
  let ?t1 = "?t\<lparr>fld_currentSTH := Some ?h, fld_currentSTHErr := None,
               getLatestRootOnce := True, fld_writeRev := 5\<rparr>"
  let ?n1 = "\<lparr>NodeID = \<lparr>Path = \<lparr>elems = [1], spare = []\<rparr>, PrefixLenBits = 8\<rparr>, Hash = [7],
          NodeRevision = 0\<rparr>"
  let ?n2 = "\<lparr>NodeID = \<lparr>Path = \<lparr>elems = [3], spare = []\<rparr>, PrefixLenBits = 8\<rparr>, Hash = [9],
          NodeRevision = 0\<rparr>"
  let ?bad = "\<lparr>NodeID = \<lparr>Path = \<lparr>elems = [2], spare = []\<rparr>, PrefixLenBits = 3\<rparr>, Hash = [8],
          NodeRevision = 0\<rparr>"
  let ?n4 = "\<lparr>NodeID = \<lparr>Path = \<lparr>elems = [4], spare = []\<rparr>, PrefixLenBits = 8\<rparr>, Hash = [6],
          NodeRevision = 0\<rparr>"
  let ?c = "[\<lparr>Prefix = Some [1], Depth = 8, RootHash = [7], Leaves = [], InternalNodes = []\<rparr>,
            \<lparr>Prefix = Some [3], Depth = 8, RootHash = [9], Leaves = [], InternalNodes = []\<rparr>]"
  let ?L = "getSubtree demo ?t1 ?s (5 - 1)"
  have rw: "stx ?t = Some ReadWriteTransaction" by (simp add: freshTX_def)
  have wr: "writeRev demo ?t ?s = (Ret (5, None), ?t1)"
    by (simp add: writeRev_def getLatestRoot_def latestSTH_def headRowFn_def headRow_def
        backend_def demo_def freshTX_def)
  have good: "getSubtree demo ?t1 ?s 4 \<lparr>Path = \<lparr>elems = [b], spare = []\<rparr>, PrefixLenBits = 8\<rparr> = Ret (None, None)" for b
    by (simp add: getSubtree_def subtreeKey_def slice_to_def cap_def signed_modulo_int_def
        signed_divide_int_def freshTX_def backend_def)
  have bad: "getSubtree demo ?t1 ?s 4 \<lparr>Path = \<lparr>elems = [2], spare = []\<rparr>, PrefixLenBits = 3\<rparr>
      = Ret (None, Some (ErrNotMultipleOf8 3))"
    by (simp add: getSubtree_def subtreeKey_def signed_modulo_int_def)
  have acc: "\<forall>c. \<forall>m\<in>set [?n1, ?n2]. fst (SetNodeHash demo c (NodeID m) (Hash m) ?L) = Ret None"
    by (simp add: demo_simps demoSetNodeHash_def good)
  have c1: "?c = foldl (\<lambda>c m. snd (SetNodeHash demo c (NodeID m) (Hash m) ?L)) (cache ?t1) [?n1, ?n2]"
    by (simp add: demo_simps demoSetNodeHash_def good freshTX_simps)
  have fails: "SetNodeHash demo ?c (NodeID ?bad) (Hash ?bad) ?L = (Ret (Some (ErrNotMultipleOf8 3)), ?c)"
    by (simp add: demo_simps demoSetNodeHash_def bad)
  have fl: "\<forall>writer s0. Flush demo ?c writer s0
           = (case writer (map Some ?c) s0 of (err, s') \<Rightarrow> (err, ?c, s'))"
    by (simp add: demo_simps demoFlush_def)
  have ms: "\<forall>st. Some st \<in> set (map Some ?c) \<longrightarrow> (\<exists>b. MarshalSubtree demo st = Inr b)"
    by (auto simp: demo_simps demoMarshal_def)
  have bw: "\<forall>ms. BufferWriteErr ?s ms = None" by (simp add: backend_def)
  from SetMerkleNodes_not_atomic [where t = ?t and d = demo and s = ?s and w = 5 and ?t1.0 = ?t1
      and pre = "[?n1, ?n2]" and ?c1.0 = ?c and n = ?bad and e = "ErrNotMultipleOf8 3"
      and ?c2.0 = ?c and held = "map Some" and ?c3.0 = ?c and post = "[?n4]"]
    rw wr acc c1 fails fl ms bw
  have set: "SetMerkleNodes demo ?t ?s ([?n1, ?n2] @ ?bad # [?n4])
      = (Ret (Some (ErrNotMultipleOf8 3)), ?t1\<lparr>cache := ?c\<rparr>)"
    and com: "Commit demo (?t1\<lparr>cache := ?c\<rparr>) ?s
         = (None, ?t1\<lparr>cache := ?c, stx := None\<rparr>,
            ?s\<lparr>buffered := buffered ?s
                 @ map (\<lambda>st. Insert (treeID ?t) (Prefix st) 5 (projr (MarshalSubtree demo st)))
                       (map the (filter (\<lambda>x. x \<noteq> None) (map Some ?c)))\<rparr>)"
    by blast+
  have bf: "buffered ?s
       @ map (\<lambda>st. Insert (treeID ?t) (Prefix st) 5 (projr (MarshalSubtree demo st)))
             (map the (filter (\<lambda>x. x \<noteq> None) (map Some ?c)))
      = [Insert 1 (Some [1]) 5 [1, 1, 7], Insert 1 (Some [3]) 5 [1, 3, 9]]"
    by (simp add: backend_def freshTX_simps demo_simps demoMarshal_def)
  from set com bf show ?thesis by simp
qed

subsection \<open>Node writes on a read-only scope\<close>

lemma SetMerkleNodes_frame:
  "SetMerkleNodes d t s nodes = (res, t') \<Longrightarrow> stx t' = stx t"
  by (auto simp: SetMerkleNodes_def split: option.splits outcome.splits prod.splits
      dest: writeRev_frame)

lemma Commit_read_only:
  "stx t = Some ReadOnlyTransaction \<Longrightarrow>
   Commit d t s = (None, t\<lparr>stx := None\<rparr>, s\<lparr>released := True\<rparr>)"
  by (simp add: Commit_def)

lemma storeSubtrees_wrong_type:
  "stx t \<noteq> Some ReadWriteTransaction \<Longrightarrow> storeSubtrees d t sts s = (Some ErrWrongTXType, s)"
  by (auto simp: storeSubtrees_def split: option.splits stxType.splits)

text \<open>
  On a read-only scope, whatever \<open>SetMerkleNodes\<close> returned, the \<open>Commit\<close> that follows
  returns nil and leaves the buffered writes of the scope as they were: it never reaches
  \<open>storeSubtrees\<close>, the one place that returns \<open>ErrWrongTXType\<close>.
\<close>

lemma read_only_Commit_after_SetMerkleNodes:
  assumes "stx t = Some ReadOnlyTransaction" and "SetMerkleNodes d t s nodes = (res, t')"
  shows "Commit d t' s = (None, t'\<lparr>stx := None\<rparr>, s\<lparr>released := True\<rparr>)"
proof -
  from SetMerkleNodes_frame [OF assms(2)] assms(1) have "stx t' = Some ReadOnlyTransaction"
    by simp
  then show ?thesis by (rule Commit_read_only)
qed

text \<open>
  C3, where the code departs from it. A fresh transaction on a read-only scope, over a
  tree with its head at revision 4: \<open>SetMerkleNodes\<close> with one node returns nil, not
  \<open>ErrWrongTXType\<close>, and holds the node's subtree in the cache; the \<open>Commit\<close> that follows
  returns nil as well and buffers nothing, so the write is lost without any error.
\<close>

theorem SetMerkleNodes_read_only_dropped:
  "SetMerkleNodes demo (freshTX 1 ReadOnlyTransaction []) (backend [headRow 1 4] (\<lambda>k. []))
       [\<lparr>NodeID = \<lparr>Path = \<lparr>elems = [1], spare = []\<rparr>, PrefixLenBits = 8\<rparr>, Hash = [7],
          NodeRevision = 0\<rparr>]
     = (Ret None,
        \<lparr>treeID = 1, stx = Some ReadOnlyTransaction,
         fld_currentSTH = Some \<lparr>TreeId = 1, TsNanos = 1000, TreeSize = 0, HeadRootHash = [],
            Signature = DigitallySigned [], TreeRevision = 4, Metadata = Any []\<rparr>,
         fld_currentSTHErr = None, fld_writeRev = 5,
         cache = [\<lparr>Prefix = Some [1], Depth = 8, RootHash = [7], Leaves = [],
                   InternalNodes = []\<rparr>],
         getLatestRootOnce = True\<rparr>)
   \<and> Commit demo
        \<lparr>treeID = 1, stx = Some ReadOnlyTransaction,
         fld_currentSTH = Some \<lparr>TreeId = 1, TsNanos = 1000, TreeSize = 0, HeadRootHash = [],
            Signature = DigitallySigned [], TreeRevision = 4, Metadata = Any []\<rparr>,
         fld_currentSTHErr = None, fld_writeRev = 5,
         cache = [\<lparr>Prefix = Some [1], Depth = 8, RootHash = [7], Leaves = [],
                   InternalNodes = []\<rparr>],
         getLatestRootOnce = True\<rparr>
        (backend [headRow 1 4] (\<lambda>k. []))
     = (None,
        \<lparr>treeID = 1, stx = None,
         fld_currentSTH = Some \<lparr>TreeId = 1, TsNanos = 1000, TreeSize = 0, HeadRootHash = [],
            Signature = DigitallySigned [], TreeRevision = 4, Metadata = Any []\<rparr>,
         fld_currentSTHErr = None, fld_writeRev = 5,
         cache = [\<lparr>Prefix = Some [1], Depth = 8, RootHash = [7], Leaves = [],
                   InternalNodes = []\<rparr>],
         getLatestRootOnce = True\<rparr>,
        (backend [headRow 1 4] (\<lambda>k. []))\<lparr>released := True\<rparr>)
   \<and> buffered ((backend [headRow 1 4] (\<lambda>k. []))\<lparr>released := True\<rparr>) = []"
  by (simp add: SetMerkleNodes_def writeRev_def getLatestRoot_def latestSTH_def headRowFn_def
      headRow_def backend_def demo_def freshTX_def demoSetNodeHash_def getSubtree_def
      subtreeKey_def slice_to_def cap_def signed_modulo_int_def signed_divide_int_def
      Commit_def)

end
